theory Spec2Isabelle
  imports Main "HOL-Library.AList"
begin

section \<open>JavaScript values used by the model\<close>

text \<open>
  Exceptions are values. \<open>console.assert\<close> throws an \<open>AssertionError\<close> when its
  argument is false (the behaviour of the Node.js versions this code was written for);
  calling an identifier that is bound nowhere throws a \<open>ReferenceError\<close>; reading a
  property of \<open>undefined\<close> throws a \<open>TypeError\<close>; \<open>FsError\<close> is an exception thrown by
  a file system call.
\<close>

datatype error = AssertionError | ReferenceError | TypeError | FsError string

text \<open>Objects are association lists: \<open>for (k in obj)\<close> enumerates the keys in list order,
  \<open>obj[k]\<close> is \<open>map_of\<close>, \<open>delete obj[k]\<close> is \<open>AList.delete\<close> and \<open>obj[k] = v\<close> is
  \<open>AList.update\<close>.\<close>

definition nth_opt :: "'a list \<Rightarrow> nat \<Rightarrow> 'a option" where
  "nth_opt xs i = (if i < length xs then Some (xs ! i) else None)"

text \<open>\<open>Array.prototype.pop\<close>: the last element (or \<open>undefined\<close>) and the shortened array.\<close>

definition pop :: "'a list \<Rightarrow> 'a option \<times> 'a list" where
  "pop xs = (if xs = [] then (None, []) else (Some (last xs), butlast xs))"

text \<open>A number-valued property of a string: only \<open>length\<close> exists; every other property
  name gives \<open>undefined\<close> (\<open>None\<close>).\<close>

definition string_prop :: "string \<Rightarrow> string \<Rightarrow> nat option" where
  "string_prop s p = (if p = ''length'' then Some (length s) else None)"

text \<open>\<open>i < bound\<close> where \<open>bound\<close> may be \<open>undefined\<close>: a comparison with \<open>undefined\<close> is
  false.\<close>

definition js_lt :: "nat \<Rightarrow> nat option \<Rightarrow> bool" where
  "js_lt i bound = (case bound of None \<Rightarrow> False | Some n \<Rightarrow> i < n)"

text \<open>Truthiness of an optional number (\<open>if (dayTimestamp)\<close>): \<open>undefined\<close> and \<open>0\<close> are
  falsy.\<close>

definition truthy_num :: "int option \<Rightarrow> bool" where
  "truthy_num v = (case v of None \<Rightarrow> False | Some n \<Rightarrow> n \<noteq> 0)"


section \<open>Group (group.js)\<close>

type_synonym te_ref = nat

text \<open>Modelled from the spec: time\_entry.js is not part of the sources. A time entry has a
  path, a written size and a counter of read operations; \<open>incReadOperations\<close> and
  \<open>decReadOperations\<close> add and subtract one.\<close>

record time_entry =
  te_path :: string
  writtenSize :: nat
  readOperations :: int

type_synonym te_heap = "te_ref \<Rightarrow> time_entry"

record group =
  name :: string
  path :: string
  timeEntryCount :: int
  timeEntries :: "(int \<times> te_ref) list"
  closed :: bool

definition validateGroupNameChar :: "char option \<Rightarrow> bool" where
  "validateGroupNameChar ch = (case ch of None \<Rightarrow> False | Some c \<Rightarrow>
     ((of_char c :: nat) \<ge> of_char (CHR ''a'') \<and> (of_char c :: nat) \<le> of_char (CHR ''z''))
     \<or> ((of_char c :: nat) \<ge> of_char (CHR ''A'') \<and> (of_char c :: nat) \<le> of_char (CHR ''Z''))
     \<or> ((of_char c :: nat) \<ge> of_char (CHR ''0'') \<and> (of_char c :: nat) \<le> of_char (CHR ''9''))
     \<or> c = CHR ''_''
     \<or> c = CHR ''-''
     \<or> c = CHR ''.'')"

text \<open>The loop of \<open>validateGroupName\<close>, \<open>for (var i = 0; i < name.legth; i++)\<close>; the bound
  is whatever the property read gave.\<close>

function validateGroupNameLoop :: "string \<Rightarrow> nat option \<Rightarrow> nat \<Rightarrow> bool" where
  "validateGroupNameLoop nm bound i =
     (if js_lt i bound then
        (if \<not> validateGroupNameChar (nth_opt nm i) then False
         else validateGroupNameLoop nm bound (i + 1))
      else True)"
  by pat_completeness auto
termination
  by (relation "measure (\<lambda>(nm, bound, i). (case bound of None \<Rightarrow> 0 | Some n \<Rightarrow> n - i))")
     (auto simp: js_lt_def split: option.splits)

definition validateGroupName :: "string \<Rightarrow> bool" where
  "validateGroupName nm =
     (if length nm = 0 \<or> nth_opt nm 0 = Some (CHR ''.'') then False
      else validateGroupNameLoop nm (string_prop nm ''legth'') 0)"

text \<open>What a call of a \<open>Group\<close> method does besides changing the group: renames, closing of
  time entries, spawned \<open>rm -rf\<close> processes and the invocation of the callback (with its
  error argument, if any).\<close>

datatype event =
    Renamed string string
  | TimeEntryClose te_ref
  | SpawnRm string
  | Callback "error option"

text \<open>\<open>IOUtils.renameToHidden\<close> (io\_utils.js is not part of the sources) is a parameter
  \<open>rn\<close>: it returns the new file name or throws.\<close>

type_synonym rename_fn = "string \<Rightarrow> error + string"

text \<open>\<open>Group.prototype.close\<close>. The callbacks given to the time entries run later, when
  each time entry has closed; \<open>closeEntryClosed\<close> is that callback, on the captured
  \<open>counter\<close>.\<close>

definition close :: "bool \<Rightarrow> group \<Rightarrow> group \<times> event list" where
  "close hasCallback g =
     (let counter = timeEntryCount g;
          tes = timeEntries g;
          g' = g\<lparr>timeEntryCount := 0, timeEntries := [], closed := True\<rparr>
      in if counter = 0 then (g', if hasCallback then [Callback None] else [])
         else (g', map (\<lambda>dts. TimeEntryClose (snd dts)) tes))"

definition closeEntryClosed :: "bool \<Rightarrow> int \<Rightarrow> error + (int \<times> event list)" where
  "closeEntryClosed hasCallback counter =
     (if \<not> counter > 0 then Inl AssertionError
      else let counter' = counter - 1
           in Inr (counter', if counter' = 0 \<and> hasCallback then [Callback None] else []))"

text \<open>\<open>deleteNextDir\<close> inside \<open>Group.prototype.remove\<close>: pops one directory and spawns
  \<open>rm -rf\<close> on it; it runs again when that child exits.\<close>

definition deleteNextDir :: "string list \<Rightarrow> string list \<times> event list" where
  "deleteNextDir dirsToRemove =
     (case pop dirsToRemove of
        (None, rest) \<Rightarrow> (rest, [])
      | (Some dir, rest) \<Rightarrow> (if dir \<noteq> [] then (rest, [SpawnRm dir]) else (rest, [])))"

text \<open>The children exiting one after the other: \<open>deleteNextDir\<close> again at each exit, until
  it spawns nothing.\<close>

fun childExits :: "nat \<Rightarrow> string list \<Rightarrow> event list" where
  "childExits 0 dirsToRemove = []"
| "childExits (Suc n) dirsToRemove =
     (case deleteNextDir dirsToRemove of
        (rest, []) \<Rightarrow> []
      | (rest, e # es) \<Rightarrow> (e # es) @ childExits n rest)"

text \<open>The second loop of \<open>remove\<close>, over \<open>dayTimestampsToRemove\<close>. The result is the
  exception caught (if any), the group, \<open>dirsToRemove\<close> and the events so far.\<close>

fun removeLoop :: "rename_fn \<Rightarrow> te_heap \<Rightarrow> int list \<Rightarrow> group \<Rightarrow> string list \<Rightarrow> event list
    \<Rightarrow> error option \<times> group \<times> string list \<times> event list" where
  "removeLoop rn h [] g dirs ev = (None, g, dirs, ev)"
| "removeLoop rn h (dts # rest) g dirs ev =
     (case map_of (timeEntries g) dts of
        None \<Rightarrow> (Some TypeError, g, dirs, ev)
      | Some te \<Rightarrow>
          (case rn (te_path (h te)) of
             Inl err \<Rightarrow> (Some err, g, dirs, ev)
           | Inr newFilename \<Rightarrow>
               removeLoop rn h rest
                 (g\<lparr>timeEntryCount := timeEntryCount g - 1,
                    timeEntries := AList.delete dts (timeEntries g)\<rparr>)
                 (dirs @ [newFilename])
                 (ev @ [Renamed (te_path (h te)) newFilename, TimeEntryClose te])))"

text \<open>\<open>Group.prototype.remove\<close>. The result is the group, the directories left in
  \<open>dirsToRemove\<close> for the exits of the children, and the events.\<close>

definition remove :: "rename_fn \<Rightarrow> te_heap \<Rightarrow> int option \<Rightarrow> group
    \<Rightarrow> group \<times> string list \<times> event list" where
  "remove rn h dayTimestamp g =
     (case (truthy_num dayTimestamp, dayTimestamp) of
        (True, Some d) \<Rightarrow>
          (let dayTimestampsToRemove = filter (\<lambda>dts. dts < d) (map fst (timeEntries g));
               (err, g', dirs, ev) = removeLoop rn h dayTimestampsToRemove g [] [];
               (dirs', ev') = deleteNextDir dirs
           in (g', dirs', ev @ ev' @ [Callback err]))
      | _ \<Rightarrow>
          (case rn (path g) of
             Inl err \<Rightarrow> (g, [], [Callback (Some err)])
           | Inr newFilename \<Rightarrow>
               (let (g', ev) = close False g
                in (g', [], [Renamed (path g) newFilename] @ ev
                            @ [SpawnRm newFilename, Callback None]))))"

text \<open>\<open>Group.prototype.removeOne\<close>.\<close>

definition removeOne :: "rename_fn \<Rightarrow> te_heap \<Rightarrow> int \<Rightarrow> group \<Rightarrow> group \<times> event list" where
  "removeOne rn h dayTimestamp g =
     (case map_of (timeEntries g) dayTimestamp of
        None \<Rightarrow> (g, [Callback None])
      | Some te \<Rightarrow>
          (case rn (te_path (h te)) of
             Inl err \<Rightarrow> (g, [Callback (Some err)])
           | Inr newFilename \<Rightarrow>
               (g\<lparr>timeEntryCount := timeEntryCount g - 1,
                  timeEntries := AList.delete dayTimestamp (timeEntries g)\<rparr>,
                [Renamed (te_path (h te)) newFilename, TimeEntryClose te,
                 SpawnRm newFilename, Callback None])))"

text \<open>The entries of a group that are older than a day timestamp, and the others; the
  hidden name and the events of the destruction of one entry, where \<open>hid\<close> names the
  result of a successful rename.\<close>

definition older :: "int \<Rightarrow> (int \<times> te_ref) list \<Rightarrow> (int \<times> te_ref) list" where
  "older d es = filter (\<lambda>e. fst e < d) es"

definition notOlder :: "int \<Rightarrow> (int \<times> te_ref) list \<Rightarrow> (int \<times> te_ref) list" where
  "notOlder d es = filter (\<lambda>e. \<not> fst e < d) es"

definition hiddenOf :: "(string \<Rightarrow> string) \<Rightarrow> te_heap \<Rightarrow> int \<times> te_ref \<Rightarrow> string" where
  "hiddenOf hid h e = hid (te_path (h (snd e)))"

definition destroyEvents :: "(string \<Rightarrow> string) \<Rightarrow> te_heap \<Rightarrow> int \<times> te_ref \<Rightarrow> event list" where
  "destroyEvents hid h e = [Renamed (te_path (h (snd e))) (hiddenOf hid h e), TimeEntryClose (snd e)]"

definition renamesSucceed :: "rename_fn \<Rightarrow> (string \<Rightarrow> string) \<Rightarrow> te_heap \<Rightarrow> (int \<times> te_ref) list \<Rightarrow> bool" where
  "renamesSucceed rn hid h es =
     list_all (\<lambda>e. rn (te_path (h (snd e))) = Inr (hiddenOf hid h e) \<and> hiddenOf hid h e \<noteq> []) es"

text \<open>Concrete values for the examples: a rename that always succeeds, a heap of three time entries and a group holding them under the days 1, 2 and 5.\<close>

definition rename_ok :: rename_fn where
  "rename_ok p = Inr (''.hidden-'' @ p)"

definition hidden_name :: "string \<Rightarrow> string" where
  "hidden_name p = ''.hidden-'' @ p"

definition heap3 :: te_heap where
  "heap3 r = (if r = 0 then \<lparr>te_path = ''db/g/1'', writtenSize = 10, readOperations = 0\<rparr>
              else if r = 1 then \<lparr>te_path = ''db/g/2'', writtenSize = 20, readOperations = 0\<rparr>
              else \<lparr>te_path = ''db/g/5'', writtenSize = 50, readOperations = 0\<rparr>)"

definition group3 :: group where
  "group3 = \<lparr>name = ''g'', path = ''db/g'', timeEntryCount = 3,
             timeEntries = [(1, 0), (2, 1), (5, 2)], closed = False\<rparr>"


section \<open>Replica slave session (replica\_slave.js)\<close>

datatype conn_state =
  UNINITIALIZED | BACKGROUND_SYNCHRONIZING | LOCKED_SYNCHRONIZING | READY | DISCONNECTED

datatype command =
  PRUNE_ONE_COMMAND | PRUNE_ALL_COMMAND | FILL_COMMAND | CHECK_RESULTS_COMMAND

type_synonym item_ref = nat
type_synonym re_ref = nat
type_synonym cb_ref = nat
type_synonym buffer = "nat list"

text \<open>A work item is a JavaScript object; a field that is not set is \<open>None\<close>. The items
  created by \<open>onRemoveFromOurDatabase\<close> name the group in the field \<open>group\<close>, the others in
  \<open>groupName\<close>. \<open>timeEntry\<close> refers to a time entry of the database, \<open>timeEntryOnReplica\<close> to
  an object \<open>{size: n}\<close> of the mirror of the slave's table of contents, and \<open>callback\<close> is
  the \<open>done\<close> function given by the database.\<close>

record work_item =
  command :: "command option"
  groupName :: "string option"
  group :: "string option"
  dayTimestamp :: "int option"
  timeEntry :: "te_ref option"
  dataBuffers :: "buffer list option"
  item_size :: "nat option"
  callback :: "cb_ref option"
  cleaned :: bool
  timeEntryOnReplica :: "re_ref option"

definition emptyItem :: work_item where
  "emptyItem = \<lparr>command = None, groupName = None, group = None, dayTimestamp = None,
     timeEntry = None, dataBuffers = None, item_size = None, callback = None,
     cleaned = False, timeEntryOnReplica = None\<rparr>"

text \<open>A record handed to the callback of \<open>TimeEntry.each\<close>.\<close>

datatype each_record =
    DataRecord (data: buffer) (dataSize: nat) (recordSize: nat) (corrupted: bool)
  | Eof

text \<open>The JSON commands written to the slave. A field whose value is \<open>undefined\<close> is left
  out by \<open>JSON.stringify\<close>: it is \<open>None\<close>. The fields of \<open>AddCmd\<close> are group, timestamp,
  size, opid and corrupted.\<close>

datatype message =
    StatusMsg string
  | GetTocCmd
  | RemoveOneCmd "string option" "int option"
  | RemoveCmd "string option"
  | AddCmd "string option" "int option" nat nat "bool option"
  | ResultsCmd
  | PingCmd

text \<open>The JSON objects read from the slave: a status reply or a table of contents.\<close>

type_synonym toc_json = "(string \<times> (int \<times> nat) list) list"

datatype reply = Reply string

definition status :: "reply \<Rightarrow> string" where
  "status rp = (case rp of Reply st \<Rightarrow> st)"

text \<open>The callbacks that the session registers, with the variables that each closure
  captured.\<close>

datatype cont =
    K_continueReplication
  | K_processNextReplicationCommand
  | K_sentRemoveOneCommand item_ref "int list"
  | K_receivedReplyForRemoveOneCommand item_ref "int list"
  | K_sentRemoveCommand item_ref
  | K_receivedReplyForRemoveCommand item_ref
  | K_written item_ref
  | K_fillByStreamingDataFile_get item_ref
  | K_fillByStreamingDataFile_reply item_ref
  | K_startStreamingDataFile_each item_ref
  | K_dataFileRecordSent item_ref each_record
  | K_dataFileRecordSent_results item_ref each_record
  | K_handleCheckResultAfterSendingDataFileRecord item_ref each_record
  | K_startStreamingDataFile_results item_ref
  | K_dataFileFullyStreamed item_ref
  | K_checkResults_sent item_ref
  | K_handleCheckResult item_ref
  | K_locked
  | K_pingReply

text \<open>The arguments of a callback: none, the error (or none) of a finished write, the
  object read, the table of contents read, or the error and the record that \<open>get\<close> and
  \<open>each\<close> of a time entry hand over.\<close>

datatype arg =
    NoArg
  | Err "error option"
  | Obj reply
  | Toc toc_json
  | EachResult "error option" "each_record option"

text \<open>Everything the session does to the world outside, in order: writes to the socket
  (with the callback to run when the write is done), reads registered, calls on time
  entries, on the database, on the socket and on the event loop, and invocations of a
  \<open>done\<close> callback; and the objects read from the socket, as they are handed to the
  callback that was waiting for them (\<open>Received\<close>).\<close>

datatype action =
    WriteJSON message "cont option"
  | Write buffer "cont option"
  | ReadJsonObject cont
  | Received cont arg
  | TimeEntryGet te_ref nat cont
  | TimeEntryEach te_ref nat cont
  | RecordStop
  | RecordReadNext
  | NextTick cont
  | DatabaseLock cont
  | DatabaseUnlock
  | DatabaseOn
  | DatabaseRemoveListener
  | SocketDestroy
  | DisconnectWithError
  | InputResume
  | Invoke cb_ref

text \<open>The session: the fields of the \<open>ReplicaSlave\<close> object that the replication reads
  (\<open>state\<close>, \<open>resultCheckThreshold\<close>, the role of the server, \<open>socket.destroyed\<close>), the
  database (\<open>groups\<close>, the time entries in \<open>teHeap\<close>, the header and footer sizes that
  \<open>calculateRecordSize\<close> adds), the local variables of \<open>_continueReplication\<close> that its
  closures share, the work items (\<open>items\<close>) and the objects of the mirror (\<open>reHeap\<close>, their
  \<open>size\<close> fields) by reference, and the trace of actions.\<close>

record session =
  state :: conn_state
  socketDestroyed :: bool
  serverIsMaster :: bool
  resultCheckThreshold :: nat
  groups :: "(string \<times> group) list"
  teHeap :: te_heap
  headerSize :: nat
  footerSize :: nat
  toc :: "(string \<times> (int \<times> re_ref) list) list"
  reHeap :: "re_ref \<Rightarrow> nat"
  nextRe :: re_ref
  items :: "item_ref \<Rightarrow> work_item"
  nextItem :: item_ref
  workQueue :: "item_ref list"
  currentWorkItem :: "item_ref option"
  resultCheckCounter :: nat
  cleanupHandler :: bool
  nextOpId :: nat
  replicatorStarted :: bool
  trace :: "action list"

definition bind_e :: "error + 'a \<Rightarrow> ('a \<Rightarrow> error + 'b) \<Rightarrow> error + 'b" where
  "bind_e m f = (case m of Inl e \<Rightarrow> Inl e | Inr x \<Rightarrow> f x)"

text \<open>A property key: \<open>obj[undefined]\<close> reads the property named \<open>undefined\<close>.\<close>

definition key_of :: "string option \<Rightarrow> string" where
  "key_of k = (case k of None \<Rightarrow> ''undefined'' | Some g \<Rightarrow> g)"

definition emit :: "action \<Rightarrow> session \<Rightarrow> session" where
  "emit a s = s\<lparr>trace := trace s @ [a]\<rparr>"

text \<open>Modelled from the spec: time\_entry.js and database.js are not part of the sources.
  \<open>incReadOperations\<close> and \<open>decReadOperations\<close> count the read operations of a time entry
  up and down; the size of a record on disk is the header, the payload and the footer.\<close>

definition incReadOperations :: "te_ref \<Rightarrow> session \<Rightarrow> session" where
  "incReadOperations te s =
     s\<lparr>teHeap := (teHeap s)(te := (teHeap s te)\<lparr>readOperations := readOperations (teHeap s te) + 1\<rparr>)\<rparr>"

definition decReadOperations :: "te_ref \<Rightarrow> session \<Rightarrow> session" where
  "decReadOperations te s =
     s\<lparr>teHeap := (teHeap s)(te := (teHeap s te)\<lparr>readOperations := readOperations (teHeap s te) - 1\<rparr>)\<rparr>"

definition calculateRecordSize :: "session \<Rightarrow> buffer list \<Rightarrow> nat" where
  "calculateRecordSize s buffers = headerSize s + sum_list (map length buffers) + footerSize s"

definition connected :: "session \<Rightarrow> bool" where
  "connected s = (state s \<noteq> DISCONNECTED \<and> \<not> socketDestroyed s)"

definition disconnectWithError :: "session \<Rightarrow> session" where
  "disconnectWithError s =
     (if connected s then (emit DisconnectWithError s)\<lparr>state := DISCONNECTED\<rparr> else s)"

text \<open>\<open>_disconnect\<close> without a callback: the socket is destroyed, at once or when its
  buffer has drained.\<close>

definition disconnect :: "session \<Rightarrow> session" where
  "disconnect s =
     (if connected s then (emit SocketDestroy s)\<lparr>state := DISCONNECTED\<rparr> else s)"

definition writeJSON :: "message \<Rightarrow> cont option \<Rightarrow> session \<Rightarrow> session" where
  "writeJSON msg k s = emit (WriteJSON msg k) s"

definition writeBuffer :: "buffer \<Rightarrow> cont option \<Rightarrow> session \<Rightarrow> session" where
  "writeBuffer buf k s = emit (Write buf k) s"

definition readJsonObject :: "cont \<Rightarrow> session \<Rightarrow> session" where
  "readJsonObject k s = emit (ReadJsonObject k) s"

definition startReplicator :: "session \<Rightarrow> session" where
  "startReplicator s =
     (if \<not> replicatorStarted s
         \<and> state s \<noteq> BACKGROUND_SYNCHRONIZING
         \<and> state s \<noteq> LOCKED_SYNCHRONIZING
         \<and> connected s
      then emit (NextTick K_processNextReplicationCommand) (s\<lparr>replicatorStarted := True\<rparr>)
      else s)"

text \<open>An object literal \<open>{...}\<close> for a work item: a new reference.\<close>

definition newItem :: "work_item \<Rightarrow> session \<Rightarrow> item_ref \<times> session" where
  "newItem item s = (nextItem s, s\<lparr>items := (items s)(nextItem s := item), nextItem := nextItem s + 1\<rparr>)"

definition push :: "item_ref \<Rightarrow> session \<Rightarrow> session" where
  "push r s = s\<lparr>workQueue := workQueue s @ [r]\<rparr>"

definition setCallbackOfLast :: "cb_ref option \<Rightarrow> session \<Rightarrow> session" where
  "setCallbackOfLast cb s =
     (let l = last (workQueue s) in s\<lparr>items := (items s)(l := (items s l)\<lparr>callback := cb\<rparr>)\<rparr>)"

definition addToWorkQueue :: "work_item \<Rightarrow> cb_ref option \<Rightarrow> session \<Rightarrow> session" where
  "addToWorkQueue item cb s =
     (let (r, s1) = newItem item s;
          s2 = push r s1
      in if command item = Some FILL_COMMAND \<and> dataBuffers item \<noteq> None then
           (let s3 = s2\<lparr>resultCheckCounter := resultCheckCounter s2 + 1\<rparr>
            in if resultCheckCounter s3 \<ge> resultCheckThreshold s3 then
                 (let s4 = s3\<lparr>resultCheckCounter := 0\<rparr>;
                      (r', s5) = newItem (emptyItem\<lparr>command := Some CHECK_RESULTS_COMMAND,
                                                      callback := cb\<rparr>) s4
                  in push r' s5)
               else setCallbackOfLast cb s3)
         else setCallbackOfLast cb s2)"

definition cleanupWorkItem :: "item_ref \<Rightarrow> session \<Rightarrow> error + session" where
  "cleanupWorkItem r s =
     (if \<not> cleaned (items s r) then
        (let s1 = s\<lparr>items := (items s)(r := (items s r)\<lparr>cleaned := True\<rparr>)\<rparr>
         in bind_e
              (if command (items s1 r) = Some FILL_COMMAND then
                 (case timeEntry (items s1 r) of
                    None \<Rightarrow> Inl TypeError
                  | Some te \<Rightarrow> Inr (decReadOperations te s1))
               else Inr s1)
              (\<lambda>s2. case callback (items s2 r) of
                       Some cb \<Rightarrow> Inr (emit (Invoke cb) s2)
                     | None \<Rightarrow> Inr s2))
      else Inr s)"

fun cleanupItems :: "item_ref list \<Rightarrow> session \<Rightarrow> error + session" where
  "cleanupItems [] s = Inr s"
| "cleanupItems (r # rs) s = bind_e (cleanupWorkItem r s) (cleanupItems rs)"

definition cleanupWorkQueue :: "session \<Rightarrow> error + session" where
  "cleanupWorkQueue s =
     (let queue = workQueue s;
          currentItem = currentWorkItem s;
          s1 = s\<lparr>workQueue := [], currentWorkItem := None\<rparr>
      in bind_e (cleanupItems queue s1)
           (\<lambda>s2. case currentItem of Some r \<Rightarrow> cleanupWorkItem r s2 | None \<Rightarrow> Inr s2))"

text \<open>The object literals of \<open>scheduleSlaveSynchronizationCommands\<close>.\<close>

definition pruneOneItem :: "string \<Rightarrow> int option \<Rightarrow> work_item" where
  "pruneOneItem g d =
     emptyItem\<lparr>command := Some PRUNE_ONE_COMMAND, groupName := Some g, dayTimestamp := d\<rparr>"

definition fillItem :: "string \<Rightarrow> int \<Rightarrow> te_ref \<Rightarrow> work_item" where
  "fillItem g d te =
     emptyItem\<lparr>command := Some FILL_COMMAND, groupName := Some g, dayTimestamp := Some d,
       timeEntry := Some te\<rparr>"

text \<open>The first loop of \<open>scheduleSlaveSynchronizationCommands\<close>, over the groups of the
  slave's table of contents, and its inner loop over the entries of one group that exists
  locally. A \<open>for (k in obj)\<close> loop that reads \<open>obj[k]\<close> runs over the pairs of \<open>obj\<close>.\<close>

fun scheduleOnReplica :: "string \<Rightarrow> group \<Rightarrow> (int \<times> re_ref) list \<Rightarrow> session \<Rightarrow> session" where
  "scheduleOnReplica gn localGroup [] s = s"
| "scheduleOnReplica gn localGroup ((dst, entryOnReplica) # rest) s =
     scheduleOnReplica gn localGroup rest
       (case map_of (timeEntries localGroup) dst of
          Some localTimeEntry \<Rightarrow>
            (if writtenSize (teHeap s localTimeEntry) < reHeap s entryOnReplica then
               incReadOperations localTimeEntry
                 (addToWorkQueue (fillItem gn dst localTimeEntry) None
                   (addToWorkQueue (pruneOneItem gn (Some dst)) None s))
             else s)
        | None \<Rightarrow> addToWorkQueue (pruneOneItem gn (Some dst)) None s)"

fun scheduleReplicaGroups :: "(string \<times> (int \<times> re_ref) list) list \<Rightarrow> session \<Rightarrow> session" where
  "scheduleReplicaGroups [] s = s"
| "scheduleReplicaGroups ((gn, groupOnReplica) # rest) s =
     scheduleReplicaGroups rest
       (case map_of (groups s) gn of
          Some localGroup \<Rightarrow> scheduleOnReplica gn localGroup groupOnReplica s
        | None \<Rightarrow> addToWorkQueue (pruneOneItem gn None) None s)"

text \<open>The second loop, over the local groups and their time entries.\<close>

fun scheduleLocalEntries ::
    "string \<Rightarrow> (int \<times> re_ref) list option \<Rightarrow> (int \<times> te_ref) list \<Rightarrow> session \<Rightarrow> session" where
  "scheduleLocalEntries gn groupOnReplica [] s = s"
| "scheduleLocalEntries gn groupOnReplica ((dst, localTimeEntry) # rest) s =
     scheduleLocalEntries gn groupOnReplica rest
       (case (case groupOnReplica of Some g \<Rightarrow> map_of g dst | None \<Rightarrow> None) of
          Some entryOnReplica \<Rightarrow>
            (if writtenSize (teHeap s localTimeEntry) > reHeap s entryOnReplica then
               incReadOperations localTimeEntry
                 (addToWorkQueue (fillItem gn dst localTimeEntry) None s)
             else s)
        | None \<Rightarrow>
            (if writtenSize (teHeap s localTimeEntry) > 0 then
               incReadOperations localTimeEntry
                 (addToWorkQueue (fillItem gn dst localTimeEntry) None s)
             else s))"

fun scheduleLocalGroups :: "(string \<times> group) list \<Rightarrow> session \<Rightarrow> session" where
  "scheduleLocalGroups [] s = s"
| "scheduleLocalGroups ((gn, localGroup) # rest) s =
     scheduleLocalGroups rest
       (scheduleLocalEntries gn (map_of (toc s) gn) (timeEntries localGroup) s)"

definition scheduleSlaveSynchronizationCommands :: "session \<Rightarrow> session" where
  "scheduleSlaveSynchronizationCommands s =
     scheduleLocalGroups (groups s) (scheduleReplicaGroups (toc s) s)"

text \<open>\<open>delete details.command\<close>, which \<open>processNextReplicationCommand\<close> does before it
  hands the item over.\<close>

definition delete_command :: "item_ref \<Rightarrow> session \<Rightarrow> session" where
  "delete_command r s = s\<lparr>items := (items s)(r := (items s r)\<lparr>command := None\<rparr>)\<rparr>"

text \<open>\<open>pruneNextTimestamp\<close> and \<open>pruneAll\<close> end with a call of
  \<open>processNextReplicationCommand\<close> on some paths: they return the session and whether
  that call is to follow, and their callers make it.\<close>

definition pruneNextTimestamp :: "item_ref \<Rightarrow> int list \<Rightarrow> session \<Rightarrow> error + (session \<times> bool)" where
  "pruneNextTimestamp r dayTimestampsToPrune s =
     (case pop dayTimestampsToPrune of
        (Some dst, rest) \<Rightarrow>
          Inr (writeJSON (RemoveOneCmd (group (items s r)) (Some dst))
                 (Some (K_sentRemoveOneCommand r rest)) s, False)
      | (None, rest) \<Rightarrow>
          bind_e (cleanupWorkItem r s) (\<lambda>s1. Inr (s1, True)))"

definition pruneAll :: "item_ref \<Rightarrow> session \<Rightarrow> error + (session \<times> bool)" where
  "pruneAll r s =
     (case map_of (toc s) (key_of (group (items s r))) of
        Some groupOnReplica \<Rightarrow>
          (let dayTimestampsToPrune =
                 filter (\<lambda>dst. case dayTimestamp (items s r) of None \<Rightarrow> False | Some d \<Rightarrow> dst < d)
                   (map fst groupOnReplica);
               groupOnReplica' =
                 filter (\<lambda>e. fst e \<notin> set dayTimestampsToPrune) groupOnReplica
           in pruneNextTimestamp r dayTimestampsToPrune
                (s\<lparr>toc := AList.update (key_of (group (items s r))) groupOnReplica' (toc s)\<rparr>))
      | None \<Rightarrow>
          bind_e (cleanupWorkItem r s) (\<lambda>s1. Inr (s1, True)))"

definition pruneOne :: "item_ref \<Rightarrow> session \<Rightarrow> error + session" where
  "pruneOne r s =
     (case map_of (toc s) (key_of (groupName (items s r))) of
        None \<Rightarrow> Inl AssertionError
      | Some groupOnReplica \<Rightarrow>
          (case dayTimestamp (items s r) of
             Some d \<Rightarrow>
               (if map_of groupOnReplica d = None then Inl AssertionError
                else Inr (writeJSON (RemoveOneCmd (groupName (items s r)) (Some d))
                            (Some (K_sentRemoveCommand r))
                            (s\<lparr>toc := AList.update (key_of (groupName (items s r)))
                                        (AList.delete d groupOnReplica) (toc s)\<rparr>)))
           | None \<Rightarrow>
               Inr (writeJSON (RemoveCmd (groupName (items s r)))
                      (Some (K_sentRemoveCommand r))
                      (s\<lparr>toc := AList.delete (key_of (groupName (items s r))) (toc s)\<rparr>))))"

fun writeBuffers :: "item_ref \<Rightarrow> buffer list \<Rightarrow> session \<Rightarrow> session" where
  "writeBuffers r [] s = s"
| "writeBuffers r [b] s = writeBuffer b (Some (K_written r)) s"
| "writeBuffers r (b # bs) s = writeBuffers r bs (writeBuffer b None s)"

definition fillBySendingBuffers :: "item_ref \<Rightarrow> session \<Rightarrow> error + session" where
  "fillBySendingBuffers r s =
     (if state s \<noteq> READY then Inl AssertionError
      else case dataBuffers (items s r) of
        None \<Rightarrow> Inl TypeError
      | Some bufs \<Rightarrow>
          (let totalDataSize = sum_list (map length bufs);
               message = AddCmd (groupName (items s r))
                           (map_option (\<lambda>d. d * 24 * 60 * 60) (dayTimestamp (items s r)))
                           totalDataSize (nextOpId s) None;
               s1 = s\<lparr>nextOpId := nextOpId s + 1\<rparr>;
               s2 = writeJSON message (if length bufs = 0 then Some (K_written r) else None) s1
           in Inr (writeBuffers r bufs s2)))"

definition fillByStreamingDataFile :: "item_ref \<Rightarrow> session \<Rightarrow> error + session" where
  "fillByStreamingDataFile r s =
     (case (timeEntry (items s r), timeEntryOnReplica (items s r)) of
        (Some te, Some re) \<Rightarrow>
          Inr (emit (TimeEntryGet te (reHeap s re) (K_fillByStreamingDataFile_get r)) s)
      | _ \<Rightarrow> Inl TypeError)"

definition startStreamingDataFile :: "item_ref \<Rightarrow> session \<Rightarrow> error + session" where
  "startStreamingDataFile r s =
     (if state s \<noteq> BACKGROUND_SYNCHRONIZING \<and> state s \<noteq> LOCKED_SYNCHRONIZING
      then Inl AssertionError
      else case (timeEntry (items s r), timeEntryOnReplica (items s r)) of
        (Some te, Some re) \<Rightarrow>
          Inr (emit (TimeEntryEach te (reHeap s re) (K_startStreamingDataFile_each r)) s)
      | _ \<Rightarrow> Inl TypeError)"

text \<open>\<open>fill\<close>. Every place that creates a fill item gives it a day timestamp; the mirror
  has no key for an absent one, and the model stops with a \<open>TypeError\<close> there. The object
  \<open>{ size: 0 }\<close> is a new reference.\<close>

definition fill :: "item_ref \<Rightarrow> session \<Rightarrow> error + session" where
  "fill r s =
     (let gkey = key_of (groupName (items s r));
          s1 = (case map_of (toc s) gkey of
                  None \<Rightarrow> s\<lparr>toc := AList.update gkey [] (toc s)\<rparr>
                | Some g \<Rightarrow> s);
          groupOnReplica = (case map_of (toc s1) gkey of None \<Rightarrow> [] | Some g \<Rightarrow> g)
      in case dayTimestamp (items s1 r) of
           None \<Rightarrow> Inl TypeError
         | Some d \<Rightarrow>
             (let s2 = (case map_of groupOnReplica d of
                          Some re \<Rightarrow>
                            s1\<lparr>items := (items s1)(r := (items s1 r)\<lparr>timeEntryOnReplica := Some re\<rparr>)\<rparr>
                        | None \<Rightarrow>
                            s1\<lparr>items := (items s1)(r := (items s1 r)\<lparr>timeEntryOnReplica := Some (nextRe s1)\<rparr>),
                               reHeap := (reHeap s1)(nextRe s1 := 0),
                               nextRe := nextRe s1 + 1,
                               toc := AList.update gkey (AList.update d (nextRe s1) groupOnReplica) (toc s1)\<rparr>)
              in if dataBuffers (items s2 r) \<noteq> None then
                   (if state s2 \<noteq> READY then Inl AssertionError
                    else fillBySendingBuffers r s2)
                 else
                   (if state s2 \<noteq> BACKGROUND_SYNCHRONIZING \<and> state s2 \<noteq> LOCKED_SYNCHRONIZING
                    then Inl AssertionError
                    else fillByStreamingDataFile r s2)))"

definition checkResults :: "item_ref \<Rightarrow> session \<Rightarrow> session" where
  "checkResults r s = writeJSON ResultsCmd (Some (K_checkResults_sent r)) s"

definition doneBackgroundSynchronizing :: "session \<Rightarrow> error + session" where
  "doneBackgroundSynchronizing s =
     (if workQueue s \<noteq> [] then Inl AssertionError
      else if currentWorkItem s \<noteq> None then Inl AssertionError
      else Inr (emit (DatabaseLock K_locked) (s\<lparr>state := LOCKED_SYNCHRONIZING\<rparr>)))"

definition doneLockedSynchronizing :: "session \<Rightarrow> error + session" where
  "doneLockedSynchronizing s =
     (if workQueue s \<noteq> [] then Inl AssertionError
      else if currentWorkItem s \<noteq> None then Inl AssertionError
      else Inr (readJsonObject K_pingReply (writeJSON PingCmd None s)))"

text \<open>The number of \<open>PRUNE_ALL\<close> items in the work queue: the measure of
  \<open>processNextReplicationCommand\<close>.\<close>

definition pruneAllCount :: "session \<Rightarrow> nat" where
  "pruneAllCount s =
     length (filter (\<lambda>x. command (items s x) = Some PRUNE_ALL_COMMAND) (workQueue s))"

definition processMeasure :: "session \<Rightarrow> nat" where
  "processMeasure s = 2 * pruneAllCount s + (if workQueue s = [] then 1 else 0)"

definition noPruneAll :: "session \<Rightarrow> bool" where
  "noPruneAll s = list_all (\<lambda>x. command (items s x) \<noteq> Some PRUNE_ALL_COMMAND) (workQueue s)"

lemma addToWorkQueue_noPruneAll:
  "command item \<noteq> Some PRUNE_ALL_COMMAND \<Longrightarrow> noPruneAll s \<Longrightarrow>
   noPruneAll (addToWorkQueue item cb s)"
  by (auto simp: noPruneAll_def addToWorkQueue_def newItem_def push_def setCallbackOfLast_def
      emptyItem_def Let_def list_all_iff)

lemma incReadOperations_noPruneAll:
  "noPruneAll (incReadOperations te s) = noPruneAll s"
  by (simp add: noPruneAll_def incReadOperations_def)

lemma scheduleOnReplica_noPruneAll:
  "noPruneAll s \<Longrightarrow> noPruneAll (scheduleOnReplica gn lg es s)"
  by (induction gn lg es s rule: scheduleOnReplica.induct)
     (auto simp: incReadOperations_noPruneAll addToWorkQueue_noPruneAll pruneOneItem_def
        fillItem_def emptyItem_def split: option.splits)

lemma scheduleReplicaGroups_noPruneAll:
  "noPruneAll s \<Longrightarrow> noPruneAll (scheduleReplicaGroups gs s)"
  by (induction gs s rule: scheduleReplicaGroups.induct)
     (auto simp: scheduleOnReplica_noPruneAll addToWorkQueue_noPruneAll pruneOneItem_def
        emptyItem_def split: option.splits)

lemma scheduleLocalEntries_noPruneAll:
  "noPruneAll s \<Longrightarrow> noPruneAll (scheduleLocalEntries gn gor es s)"
  by (induction gn gor es s rule: scheduleLocalEntries.induct)
     (auto simp: incReadOperations_noPruneAll addToWorkQueue_noPruneAll
        fillItem_def emptyItem_def split: option.splits)

lemma scheduleLocalGroups_noPruneAll:
  "noPruneAll s \<Longrightarrow> noPruneAll (scheduleLocalGroups gs s)"
  by (induction gs s rule: scheduleLocalGroups.induct)
     (auto simp: scheduleLocalEntries_noPruneAll)

lemma schedule_noPruneAll:
  "noPruneAll s \<Longrightarrow> noPruneAll (scheduleSlaveSynchronizationCommands s)"
  by (simp add: scheduleSlaveSynchronizationCommands_def scheduleLocalGroups_noPruneAll
      scheduleReplicaGroups_noPruneAll)

lemma noPruneAll_count: "noPruneAll s \<Longrightarrow> pruneAllCount s = 0"
  by (simp add: noPruneAll_def pruneAllCount_def list_all_iff)

lemma cleanupWorkItem_queue:
  "cleanupWorkItem r s = Inr s' \<Longrightarrow>
   workQueue s' = workQueue s \<and> (\<forall>x. command (items s' x) = command (items s x))"
  by (auto simp: cleanupWorkItem_def bind_e_def decReadOperations_def emit_def Let_def
      split: if_splits option.splits)

lemma pruneNextTimestamp_queue:
  "pruneNextTimestamp r ds s = Inr (s', c) \<Longrightarrow>
   workQueue s' = workQueue s \<and> (\<forall>x. command (items s' x) = command (items s x))"
  by (auto simp: pruneNextTimestamp_def bind_e_def writeJSON_def emit_def
      split: prod.splits option.splits sum.splits dest: cleanupWorkItem_queue)

lemma pruneAll_queue:
  "pruneAll r s = Inr (s', c) \<Longrightarrow>
   workQueue s' = workQueue s \<and> (\<forall>x. command (items s' x) = command (items s x))"
  by (auto simp: pruneAll_def bind_e_def Let_def
      split: option.splits sum.splits
      dest: cleanupWorkItem_queue pruneNextTimestamp_queue)

lemma pruneAllCount_step:
  assumes "workQueue s = r # rest"
    and "command (items s r) = Some PRUNE_ALL_COMMAND"
    and "workQueue s' = rest"
    and "\<forall>x. command (items s' x) = (if x = r then None else command (items s x))"
  shows "processMeasure s' < processMeasure s"
proof -
  have "length (filter (\<lambda>x. command (items s' x) = Some PRUNE_ALL_COMMAND) rest)
      \<le> length (filter (\<lambda>x. command (items s x) = Some PRUNE_ALL_COMMAND) rest)"
    unfolding length_filter_conv_card
    by (rule card_mono) (auto simp: assms(4))
  then show ?thesis
    using assms(1,2,3) by (simp add: processMeasure_def pruneAllCount_def)
qed

function processNextReplicationCommand :: "session \<Rightarrow> error + session" where
  "processNextReplicationCommand s =
     (if \<not> connected s then Inr s
      else case workQueue s of
        r # rest \<Rightarrow>
          (let s1 = s\<lparr>workQueue := rest, currentWorkItem := Some r\<rparr>
           in case command (items s1 r) of
                Some PRUNE_ONE_COMMAND \<Rightarrow> pruneOne r (delete_command r s1)
              | Some PRUNE_ALL_COMMAND \<Rightarrow>
                  (case pruneAll r (delete_command r s1) of
                     Inl e \<Rightarrow> Inl e
                   | Inr (s2, again) \<Rightarrow>
                       if again then processNextReplicationCommand s2 else Inr s2)
              | Some FILL_COMMAND \<Rightarrow> fill r (delete_command r s1)
              | Some CHECK_RESULTS_COMMAND \<Rightarrow> Inr (checkResults r (delete_command r s1))
              | None \<Rightarrow> Inl AssertionError)
      | [] \<Rightarrow>
          if state s = BACKGROUND_SYNCHRONIZING then
            (if replicatorStarted s then Inl AssertionError
             else let s1 = scheduleSlaveSynchronizationCommands (s\<lparr>currentWorkItem := None\<rparr>)
                  in if length (workQueue s1) > 0 then processNextReplicationCommand s1
                     else doneBackgroundSynchronizing s1)
          else if state s = LOCKED_SYNCHRONIZING then
            (if replicatorStarted s then Inl AssertionError
             else let s1 = scheduleSlaveSynchronizationCommands (s\<lparr>currentWorkItem := None\<rparr>)
                  in if workQueue s1 \<noteq> [] then Inl AssertionError
                     else doneLockedSynchronizing s1)
          else if state s \<noteq> READY then Inl AssertionError
          else if \<not> replicatorStarted s then Inl AssertionError
          else Inr (s\<lparr>currentWorkItem := None, replicatorStarted := False\<rparr>))"
  by pat_completeness auto
termination
proof (relation "measure processMeasure")
  show "wf (measure processMeasure)" by simp
next
  fix s r rest s1 c x2 s2 again
  assume a: "workQueue s = r # rest"
    "s1 = s\<lparr>workQueue := rest, currentWorkItem := Some r\<rparr>"
    "command (items s1 r) = Some c" "c = PRUNE_ALL_COMMAND"
    "pruneAll r (delete_command r s1) = Inr x2" "(s2, again) = x2"
  from a(5,6) have p: "pruneAll r (delete_command r s1) = Inr (s2, again)" by simp
  from pruneAll_queue [OF p] a(2)
  have q: "workQueue s2 = rest"
    and i: "\<forall>x. command (items s2 x) = (if x = r then None else command (items s x))"
    by (simp_all add: delete_command_def)
  from a(2,3,4) have "command (items s r) = Some PRUNE_ALL_COMMAND" by simp
  from pruneAllCount_step [OF a(1) this q i]
  show "(s2, s) \<in> measure processMeasure" by simp
next
  fix s s1
  assume a: "workQueue s = []"
    "s1 = scheduleSlaveSynchronizationCommands (s\<lparr>currentWorkItem := None\<rparr>)"
    "0 < length (workQueue s1)"
  have "noPruneAll (s\<lparr>currentWorkItem := None\<rparr>)"
    using a(1) by (simp add: noPruneAll_def)
  then have "pruneAllCount s1 = 0"
    unfolding a(2) by (intro noPruneAll_count schedule_noPruneAll)
  then show "(s1, s) \<in> measure processMeasure"
    using a(1,3) by (simp add: processMeasure_def)
qed

declare processNextReplicationCommand.simps [simp del]


text \<open>\<open>cleanupWorkItem(details); processNextReplicationCommand();\<close>, and the call of
  \<open>processNextReplicationCommand\<close> that \<open>pruneNextTimestamp\<close> left to its caller.\<close>

definition finishWorkItem :: "item_ref \<Rightarrow> session \<Rightarrow> error + session" where
  "finishWorkItem r s = bind_e (cleanupWorkItem r s) processNextReplicationCommand"

definition continueWith :: "error + (session \<times> bool) \<Rightarrow> error + session" where
  "continueWith m =
     (case m of
        Inl e \<Rightarrow> Inl e
      | Inr (s, again) \<Rightarrow> if again then processNextReplicationCommand s else Inr s)"

definition ok :: "reply \<Rightarrow> bool" where
  "ok rp = (status rp = ''ok'')"

definition sentRemoveOneCommand :: "error option \<Rightarrow> item_ref \<Rightarrow> int list \<Rightarrow> session \<Rightarrow> session" where
  "sentRemoveOneCommand err r dayTimestampsToPrune s =
     (if connected s \<and> err = None
      then readJsonObject (K_receivedReplyForRemoveOneCommand r dayTimestampsToPrune) s
      else s)"

definition receivedReplyForRemoveOneCommand ::
    "reply \<Rightarrow> item_ref \<Rightarrow> int list \<Rightarrow> session \<Rightarrow> error + session" where
  "receivedReplyForRemoveOneCommand rp r dayTimestampsToPrune s =
     (if ok rp then continueWith (pruneNextTimestamp r dayTimestampsToPrune s)
      else Inr (disconnect s))"

definition sentRemoveCommand :: "error option \<Rightarrow> item_ref \<Rightarrow> session \<Rightarrow> session" where
  "sentRemoveCommand err r s =
     (if connected s \<and> err = None
      then readJsonObject (K_receivedReplyForRemoveCommand r) s
      else s)"

definition receivedReplyForRemoveCommand :: "reply \<Rightarrow> item_ref \<Rightarrow> session \<Rightarrow> error + session" where
  "receivedReplyForRemoveCommand rp r s =
     (if ok rp then finishWorkItem r s else Inr (disconnect s))"

text \<open>\<open>written\<close>, the callback of the last write of \<open>fillBySendingBuffers\<close>. An item with
  buffers always has a \<open>size\<close>; the model stops with a \<open>TypeError\<close> when it has none.\<close>

definition written :: "item_ref \<Rightarrow> session \<Rightarrow> error + session" where
  "written r s =
     (case (timeEntryOnReplica (items s r), item_size (items s r)) of
        (Some re, Some n) \<Rightarrow> finishWorkItem r (s\<lparr>reHeap := (reHeap s)(re := reHeap s re + n)\<rparr>)
      | _ \<Rightarrow> Inl TypeError)"

text \<open>The callback that \<open>fillByStreamingDataFile\<close> gives to \<open>timeEntry.get\<close>, and the one it
  gives to \<open>_readJsonObject\<close> after the \<open>removeOne\<close> command.\<close>

definition fillByStreamingDataFile_get :: "error option \<Rightarrow> item_ref \<Rightarrow> session \<Rightarrow> error + session" where
  "fillByStreamingDataFile_get err r s =
     (if \<not> connected s then Inr s
      else if err \<noteq> None then
        Inr (readJsonObject (K_fillByStreamingDataFile_reply r)
               (writeJSON (RemoveOneCmd (groupName (items s r)) (dayTimestamp (items s r))) None s))
      else startStreamingDataFile r s)"

definition fillByStreamingDataFile_reply :: "reply \<Rightarrow> item_ref \<Rightarrow> session \<Rightarrow> error + session" where
  "fillByStreamingDataFile_reply rp r s =
     (if ok rp then
        (case timeEntryOnReplica (items s r) of
           None \<Rightarrow> Inl TypeError
         | Some re \<Rightarrow> startStreamingDataFile r (s\<lparr>reHeap := (reHeap s)(re := 0)\<rparr>))
      else Inr (disconnect s))"

text \<open>The callback that \<open>startStreamingDataFile\<close> gives to \<open>timeEntry.each\<close>, and the one it
  gives to the write of the \<open>results\<close> command at the end of the file.\<close>

definition startStreamingDataFile_each ::
    "error option \<Rightarrow> each_record option \<Rightarrow> item_ref \<Rightarrow> session \<Rightarrow> error + session" where
  "startStreamingDataFile_each err record r s =
     (if \<not> connected s then
        Inr (case record of Some rc \<Rightarrow> emit RecordStop s | None \<Rightarrow> s)
      else if err \<noteq> None then Inr (disconnectWithError s)
      else case record of
        None \<Rightarrow> Inl TypeError
      | Some (DataRecord dat dsize rsize corr) \<Rightarrow>
          (case timeEntryOnReplica (items s r) of
             None \<Rightarrow> Inl TypeError
           | Some re \<Rightarrow>
               (let message = AddCmd (groupName (items s r))
                                (map_option (\<lambda>d. d * 24 * 60 * 60) (dayTimestamp (items s r)))
                                dsize (nextOpId s) (Some corr);
                    s1 = s\<lparr>nextOpId := nextOpId s + 1,
                           reHeap := (reHeap s)(re := reHeap s re + rsize),
                           cleanupHandler := True\<rparr>
                in Inr (writeBuffer dat
                          (Some (K_dataFileRecordSent r (DataRecord dat dsize rsize corr)))
                          (writeJSON message None s1))))
      | Some Eof \<Rightarrow>
          (if resultCheckCounter s = 0 then finishWorkItem r s
           else Inr (writeJSON ResultsCmd (Some (K_startStreamingDataFile_results r))
                       (s\<lparr>resultCheckCounter := 0\<rparr>))))"

definition startStreamingDataFile_results :: "error option \<Rightarrow> item_ref \<Rightarrow> session \<Rightarrow> session" where
  "startStreamingDataFile_results err r s =
     (if err = None \<and> connected s then readJsonObject (K_dataFileFullyStreamed r) s else s)"

text \<open>\<open>dataFileRecordSent\<close> calls \<open>continueReading()\<close>, and the callback of its write calls
  \<open>stop()\<close>; neither identifier is bound anywhere.\<close>

definition dataFileRecordSent :: "error option \<Rightarrow> item_ref \<Rightarrow> each_record \<Rightarrow> session \<Rightarrow> error + session" where
  "dataFileRecordSent err r record s =
     (if \<not> connected s \<or> err \<noteq> None then Inr (emit RecordStop s)
      else let s1 = s\<lparr>resultCheckCounter := resultCheckCounter s + 1\<rparr>
           in if resultCheckCounter s1 \<ge> resultCheckThreshold s1 then
                Inr (writeJSON ResultsCmd (Some (K_dataFileRecordSent_results r record))
                       (s1\<lparr>resultCheckCounter := 0\<rparr>))
              else Inl ReferenceError)"

definition dataFileRecordSent_results ::
    "error option \<Rightarrow> item_ref \<Rightarrow> each_record \<Rightarrow> session \<Rightarrow> error + session" where
  "dataFileRecordSent_results err r record s =
     (if err \<noteq> None \<or> \<not> connected s then Inl ReferenceError
      else Inr (readJsonObject (K_handleCheckResultAfterSendingDataFileRecord r record) s))"

definition handleCheckResultAfterSendingDataFileRecord ::
    "reply \<Rightarrow> item_ref \<Rightarrow> each_record \<Rightarrow> session \<Rightarrow> session" where
  "handleCheckResultAfterSendingDataFileRecord rp r record s =
     (let s1 = s\<lparr>cleanupHandler := False\<rparr>
      in if ok rp then emit RecordReadNext (s1\<lparr>nextOpId := 0\<rparr>)
         else emit RecordStop (disconnect s1))"

definition dataFileFullyStreamed :: "reply \<Rightarrow> item_ref \<Rightarrow> session \<Rightarrow> error + session" where
  "dataFileFullyStreamed rp r s =
     (if ok rp then finishWorkItem r (s\<lparr>nextOpId := 0\<rparr>) else Inr (disconnect s))"

definition checkResults_sent :: "error option \<Rightarrow> item_ref \<Rightarrow> session \<Rightarrow> session" where
  "checkResults_sent err r s =
     (if err = None \<and> connected s then readJsonObject (K_handleCheckResult r) s else s)"

definition handleCheckResult :: "reply \<Rightarrow> item_ref \<Rightarrow> session \<Rightarrow> error + session" where
  "handleCheckResult rp r s =
     (if ok rp then finishWorkItem r (s\<lparr>nextOpId := 0\<rparr>) else Inr (disconnect s))"

definition onAddingToOurDatabase ::
    "te_ref \<Rightarrow> string \<Rightarrow> int \<Rightarrow> buffer list \<Rightarrow> cb_ref \<Rightarrow> session \<Rightarrow> error + session" where
  "onAddingToOurDatabase localTimeEntry gn d bufs done s =
     (if \<not> connected s then Inr (emit (Invoke done) s)
      else if state s = LOCKED_SYNCHRONIZING then Inl AssertionError
      else if state s = READY then
        (let s1 = incReadOperations localTimeEntry s;
             s2 = addToWorkQueue
                    (emptyItem\<lparr>command := Some FILL_COMMAND, groupName := Some gn,
                       dayTimestamp := Some d, timeEntry := Some localTimeEntry,
                       dataBuffers := Some bufs,
                       item_size := Some (calculateRecordSize s1 bufs)\<rparr>)
                    (Some done) s1
         in Inr (startReplicator s2))
      else Inr (emit (Invoke done) s))"

definition onRemoveFromOurDatabase :: "string \<Rightarrow> int option \<Rightarrow> session \<Rightarrow> error + session" where
  "onRemoveFromOurDatabase gn d s =
     (if \<not> connected s then Inr s
      else if state s = LOCKED_SYNCHRONIZING then Inl AssertionError
      else if state s = READY then
        (if truthy_num d then
           Inr (startReplicator
                  (addToWorkQueue
                     (emptyItem\<lparr>command := Some PRUNE_ALL_COMMAND, group := Some gn,
                        dayTimestamp := d\<rparr>) None s))
         else
           Inr (startReplicator
                  (addToWorkQueue
                     (emptyItem\<lparr>command := Some PRUNE_ONE_COMMAND, group := Some gn\<rparr>) None s)))
      else Inr s)"

definition onConnectionClose :: "session \<Rightarrow> error + session" where
  "onConnectionClose s =
     (let s1 = emit DatabaseRemoveListener (emit DatabaseRemoveListener s);
          s2 = (if cleanupHandler s1 then emit RecordStop (s1\<lparr>cleanupHandler := False\<rparr>) else s1)
      in cleanupWorkQueue s2)"

text \<open>The callback of \<open>database.lock\<close> in \<open>doneBackgroundSynchronizing\<close> and the callback
  of the read after the ping in \<open>doneLockedSynchronizing\<close>.\<close>

definition locked :: "session \<Rightarrow> error + session" where
  "locked s =
     (if workQueue s \<noteq> [] then Inl AssertionError
      else processNextReplicationCommand (scheduleSlaveSynchronizationCommands s))"

definition pingReply :: "reply \<Rightarrow> session \<Rightarrow> session" where
  "pingReply rp s =
     emit InputResume (emit DatabaseUnlock (emit DatabaseOn (emit DatabaseOn
       (s\<lparr>state := READY\<rparr>))))"

text \<open>The table of contents that the slave sent becomes the mirror: each \<open>{size: n}\<close> of
  the parsed JSON is an object of its own.\<close>

fun loadEntries :: "(int \<times> nat) list \<Rightarrow> (int \<times> re_ref) list \<Rightarrow> session
    \<Rightarrow> (int \<times> re_ref) list \<times> session" where
  "loadEntries [] acc s = (acc, s)"
| "loadEntries ((d, sz) # rest) acc s =
     loadEntries rest (AList.update d (nextRe s) acc)
       (s\<lparr>reHeap := (reHeap s)(nextRe s := sz), nextRe := nextRe s + 1\<rparr>)"

fun loadToc :: "toc_json \<Rightarrow> session \<Rightarrow> session" where
  "loadToc [] s = s"
| "loadToc ((gn, es) # rest) s =
     (case loadEntries es [] s of
        (es', s1) \<Rightarrow> loadToc rest (s1\<lparr>toc := AList.update gn es' (toc s1)\<rparr>))"

definition continueReplication :: "toc_json \<Rightarrow> session \<Rightarrow> error + session" where
  "continueReplication t s =
     (if state s \<noteq> BACKGROUND_SYNCHRONIZING then Inl AssertionError
      else let s1 = loadToc t (s\<lparr>toc := []\<rparr>);
               s2 = s1\<lparr>workQueue := [], currentWorkItem := None, resultCheckCounter := 0,
                      cleanupHandler := False, nextOpId := 0, replicatorStarted := False\<rparr>
           in processNextReplicationCommand (scheduleSlaveSynchronizationCommands s2))"

definition startReplication :: "session \<Rightarrow> error + session" where
  "startReplication s =
     (if state s \<noteq> UNINITIALIZED then Inl AssertionError
      else Inr (readJsonObject K_continueReplication
                  ((writeJSON GetTocCmd None s)\<lparr>state := BACKGROUND_SYNCHRONIZING\<rparr>)))"

definition initialize :: "session \<Rightarrow> error + session" where
  "initialize s =
     (if serverIsMaster s then
        (let s1 = writeJSON (StatusMsg ''ok'') None s
         in if connected s1 then startReplication s1 else Inr s1)
      else Inr (writeJSON (StatusMsg ''not-master'') None s))"

text \<open>What happens to a session: it is initialized, a registered callback is called with
  its arguments, a read fails or meets the end of the input, the database emits \<open>adding\<close>
  or \<open>remove\<close>, the socket emits \<open>close\<close>, or the server calls \<open>requestClose\<close>.\<close>


datatype stimulus =
    Initialize
  | Fire cont arg
  | ReadFailed bool
  | ReadEnd
  | Adding te_ref string int "buffer list" cb_ref
  | Removed string "int option"
  | ConnectionClose
  | RequestClose

text \<open>\<open>ReplicaSlave.prototype._readJsonObject\<close>: the callback gets the object only while
  the session is connected. A failed read that is not an I/O error disconnects with an
  error, the end of the input disconnects.\<close>

definition isRead :: "cont \<Rightarrow> bool" where
  "isRead k = (case k of
      K_continueReplication \<Rightarrow> True
    | K_receivedReplyForRemoveOneCommand r ds \<Rightarrow> True
    | K_receivedReplyForRemoveCommand r \<Rightarrow> True
    | K_fillByStreamingDataFile_reply r \<Rightarrow> True
    | K_handleCheckResultAfterSendingDataFileRecord r rc \<Rightarrow> True
    | K_dataFileFullyStreamed r \<Rightarrow> True
    | K_handleCheckResult r \<Rightarrow> True
    | K_pingReply \<Rightarrow> True
    | _ \<Rightarrow> False)"

definition readFailed :: "bool \<Rightarrow> session \<Rightarrow> session" where
  "readFailed isIoError s = (if \<not> isIoError then disconnectWithError s else s)"

definition readEnd :: "session \<Rightarrow> session" where
  "readEnd s = (if connected s then disconnect s else s)"

definition dispatch :: "cont \<Rightarrow> arg \<Rightarrow> session \<Rightarrow> error + session" where
  "dispatch k a s =
     (case (k, a) of
        (K_continueReplication, Toc t) \<Rightarrow> continueReplication t s
      | (K_processNextReplicationCommand, NoArg) \<Rightarrow> processNextReplicationCommand s
      | (K_sentRemoveOneCommand r ds, Err e) \<Rightarrow> Inr (sentRemoveOneCommand e r ds s)
      | (K_receivedReplyForRemoveOneCommand r ds, Obj rp) \<Rightarrow>
          receivedReplyForRemoveOneCommand rp r ds s
      | (K_sentRemoveCommand r, Err e) \<Rightarrow> Inr (sentRemoveCommand e r s)
      | (K_receivedReplyForRemoveCommand r, Obj rp) \<Rightarrow> receivedReplyForRemoveCommand rp r s
      | (K_written r, Err e) \<Rightarrow> written r s
      | (K_fillByStreamingDataFile_get r, EachResult e rc) \<Rightarrow> fillByStreamingDataFile_get e r s
      | (K_fillByStreamingDataFile_reply r, Obj rp) \<Rightarrow> fillByStreamingDataFile_reply rp r s
      | (K_startStreamingDataFile_each r, EachResult e rc) \<Rightarrow> startStreamingDataFile_each e rc r s
      | (K_dataFileRecordSent r rc, Err e) \<Rightarrow> dataFileRecordSent e r rc s
      | (K_dataFileRecordSent_results r rc, Err e) \<Rightarrow> dataFileRecordSent_results e r rc s
      | (K_handleCheckResultAfterSendingDataFileRecord r rc, Obj rp) \<Rightarrow>
          Inr (handleCheckResultAfterSendingDataFileRecord rp r rc s)
      | (K_startStreamingDataFile_results r, Err e) \<Rightarrow> Inr (startStreamingDataFile_results e r s)
      | (K_dataFileFullyStreamed r, Obj rp) \<Rightarrow> dataFileFullyStreamed rp r s
      | (K_checkResults_sent r, Err e) \<Rightarrow> Inr (checkResults_sent e r s)
      | (K_handleCheckResult r, Obj rp) \<Rightarrow> handleCheckResult rp r s
      | (K_locked, NoArg) \<Rightarrow> locked s
      | (K_pingReply, Obj rp) \<Rightarrow> Inr (pingReply rp s)
      | _ \<Rightarrow> Inr s)"

definition fire :: "cont \<Rightarrow> arg \<Rightarrow> session \<Rightarrow> error + session" where
  "fire k a s =
     (if isRead k then
        (if connected s then dispatch k a (emit (Received k a) s) else Inr s)
      else dispatch k a s)"

definition react :: "stimulus \<Rightarrow> session \<Rightarrow> error + session" where
  "react ev s =
     (case ev of
        Initialize \<Rightarrow> initialize s
      | Fire k a \<Rightarrow> fire k a s
      | ReadFailed isIoError \<Rightarrow> Inr (readFailed isIoError s)
      | ReadEnd \<Rightarrow> Inr (readEnd s)
      | Adding te gn d bufs done \<Rightarrow> onAddingToOurDatabase te gn d bufs done s
      | Removed gn d \<Rightarrow> onRemoveFromOurDatabase gn d s
      | ConnectionClose \<Rightarrow> onConnectionClose s
      | RequestClose \<Rightarrow> Inr (disconnect s))"

text \<open>A new session, as the constructor leaves it.\<close>

definition newSession :: "bool \<Rightarrow> nat \<Rightarrow> nat \<Rightarrow> nat \<Rightarrow> (string \<times> group) list \<Rightarrow> te_heap \<Rightarrow> session" where
  "newSession master threshold hs fs gs h =
     \<lparr>state = UNINITIALIZED, socketDestroyed = False, serverIsMaster = master,
      resultCheckThreshold = threshold, groups = gs, teHeap = h, headerSize = hs,
      footerSize = fs, toc = [], reHeap = (\<lambda>re. 0), nextRe = 0,
      items = (\<lambda>r. emptyItem), nextItem = 0, workQueue = [], currentWorkItem = None,
      resultCheckCounter = 0, cleanupHandler = False, nextOpId = 0,
      replicatorStarted = False, trace = []\<rparr>"

text \<open>A run of a session: its reactions to a list of stimuli, stopping at the first
  exception; \<open>runFrom\<close> is the session at the end of a run that raised none.\<close>

fun reacts :: "stimulus list \<Rightarrow> session \<Rightarrow> error + session" where
  "reacts [] s = Inr s"
| "reacts (ev # evs) s = bind_e (react ev s) (reacts evs)"

definition runFrom :: "stimulus list \<Rightarrow> session \<Rightarrow> session" where
  "runFrom evs s = (case reacts evs s of Inr s' \<Rightarrow> s' | Inl e \<Rightarrow> s)"

text \<open>The sessions that can occur. \<open>_continueReplication\<close> is called once, by the callback
  that \<open>_startReplication\<close> registers for the slave's table of contents; its local
  variables are the variables of the session from then on. Before that call (\<open>starting\<close>)
  the session is initialized and reacts to the database, to the socket and to failed reads;
  after it (\<open>reachable\<close>) any callback but that one may run, with any arguments, and the
  session reacts to the same events. Meanwhile others change the database and the socket.\<close>

definition beforeToc :: "stimulus \<Rightarrow> bool" where
  "beforeToc ev = (case ev of Fire k a \<Rightarrow> False | _ \<Rightarrow> True)"

definition afterToc :: "stimulus \<Rightarrow> bool" where
  "afterToc ev = (case ev of Initialize \<Rightarrow> False | Fire k a \<Rightarrow> k \<noteq> K_continueReplication | _ \<Rightarrow> True)"

inductive starting :: "session \<Rightarrow> bool" where
  new: "starting (newSession master threshold hs fs gs h)"
| early: "starting s \<Longrightarrow> beforeToc ev \<Longrightarrow> react ev s = Inr s' \<Longrightarrow> starting s'"
| world0: "starting s \<Longrightarrow> starting (s\<lparr>groups := gs, teHeap := h, socketDestroyed := d\<rparr>)"

inductive reachable :: "session \<Rightarrow> bool" where
  toc: "starting s \<Longrightarrow> fire K_continueReplication (Toc t) s = Inr s' \<Longrightarrow> reachable s'"
| step: "reachable s \<Longrightarrow> afterToc ev \<Longrightarrow> react ev s = Inr s' \<Longrightarrow> reachable s'"
| world: "reachable s \<Longrightarrow> reachable (s\<lparr>groups := gs, teHeap := h, socketDestroyed := d\<rparr>)"

section \<open>Notions of the specification\<close>

text \<open>The mirror of the slave's table of contents: the object recorded for a group and a
  day, and its size.\<close>

definition mirrorEntry :: "session \<Rightarrow> string \<Rightarrow> int \<Rightarrow> re_ref option" where
  "mirrorEntry s g d =
     (case map_of (toc s) g of
        None \<Rightarrow> None
      | Some es \<Rightarrow> map_of es d)"

definition mirrorSize :: "session \<Rightarrow> string \<Rightarrow> int \<Rightarrow> nat option" where
  "mirrorSize s g d =
     (case map_of (toc s) g of
        None \<Rightarrow> None
      | Some es \<Rightarrow> map_option (reHeap s) (map_of es d))"

text \<open>The work items that the synchronization is specified to schedule, from the local
  groups \<open>gs\<close>, the written sizes \<open>ws\<close> of the local time entries, the slave's table of
  contents \<open>t\<close> and the sizes \<open>sizes\<close> it records. For a group of the slave: one
  \<open>PRUNE_ONE\<close> for the whole group when it is absent locally; otherwise, for each of its
  entries, one \<open>PRUNE_ONE\<close> for the day when the entry is absent locally, and a \<open>PRUNE_ONE\<close>
  followed by a \<open>FILL\<close> when the slave's size is greater than the written size. For a local
  entry: one \<open>FILL\<close> when its written size is greater than the slave's size, or when the
  slave has no such entry and the written size is positive. The items are written out
  field by field: \<open>scheduledPrune g d\<close> has the command \<open>PRUNE_ONE\<close>, the group name
  \<open>g\<close> and the day \<open>d\<close> (none for a whole group); \<open>scheduledFill g d te\<close> has the
  command \<open>FILL\<close>, the group name, the day and the local time entry; neither has buffers, a
  callback or any other field, and neither is cleaned.\<close>

definition scheduledPrune :: "string \<Rightarrow> int option \<Rightarrow> work_item" where
  "scheduledPrune g d =
     \<lparr>command = Some PRUNE_ONE_COMMAND, groupName = Some g, group = None, dayTimestamp = d,
      timeEntry = None, dataBuffers = None, item_size = None, callback = None,
      cleaned = False, timeEntryOnReplica = None\<rparr>"

definition scheduledFill :: "string \<Rightarrow> int \<Rightarrow> te_ref \<Rightarrow> work_item" where
  "scheduledFill g d te =
     \<lparr>command = Some FILL_COMMAND, groupName = Some g, group = None, dayTimestamp = Some d,
      timeEntry = Some te, dataBuffers = None, item_size = None, callback = None,
      cleaned = False, timeEntryOnReplica = None\<rparr>"

definition slaveSize :: "(string \<times> (int \<times> re_ref) list) list \<Rightarrow> (re_ref \<Rightarrow> nat) \<Rightarrow> string \<Rightarrow> int \<Rightarrow> nat option" where
  "slaveSize t sizes g d =
     (case map_of t g of
        None \<Rightarrow> None
      | Some es \<Rightarrow> map_option sizes (map_of es d))"

definition replicaEntryItems :: "(te_ref \<Rightarrow> nat) \<Rightarrow> (re_ref \<Rightarrow> nat) \<Rightarrow> string \<Rightarrow> group
    \<Rightarrow> int \<times> re_ref \<Rightarrow> work_item list" where
  "replicaEntryItems ws sizes g localGroup e =
     (case map_of (timeEntries localGroup) (fst e) of
        None \<Rightarrow> [scheduledPrune g (Some (fst e))]
      | Some te \<Rightarrow>
          if sizes (snd e) > ws te
          then [scheduledPrune g (Some (fst e)), scheduledFill g (fst e) te]
          else [])"

definition replicaGroupItems :: "(string \<times> group) list \<Rightarrow> (te_ref \<Rightarrow> nat) \<Rightarrow> (re_ref \<Rightarrow> nat)
    \<Rightarrow> string \<times> (int \<times> re_ref) list \<Rightarrow> work_item list" where
  "replicaGroupItems gs ws sizes ge =
     (case map_of gs (fst ge) of
        None \<Rightarrow> [scheduledPrune (fst ge) None]
      | Some localGroup \<Rightarrow>
          concat (map (replicaEntryItems ws sizes (fst ge) localGroup) (snd ge)))"

definition localEntryItems :: "(string \<times> (int \<times> re_ref) list) list \<Rightarrow> (te_ref \<Rightarrow> nat)
    \<Rightarrow> (re_ref \<Rightarrow> nat) \<Rightarrow> string \<Rightarrow> int \<times> te_ref \<Rightarrow> work_item list" where
  "localEntryItems t ws sizes g e =
     (case slaveSize t sizes g (fst e) of
        Some sz \<Rightarrow> if ws (snd e) > sz then [scheduledFill g (fst e) (snd e)] else []
      | None \<Rightarrow> if ws (snd e) > 0 then [scheduledFill g (fst e) (snd e)] else [])"

definition localGroupItems :: "(string \<times> (int \<times> re_ref) list) list \<Rightarrow> (te_ref \<Rightarrow> nat)
    \<Rightarrow> (re_ref \<Rightarrow> nat) \<Rightarrow> string \<times> group \<Rightarrow> work_item list" where
  "localGroupItems t ws sizes gg =
     concat (map (localEntryItems t ws sizes (fst gg)) (timeEntries (snd gg)))"

definition syncItems :: "(string \<times> group) list \<Rightarrow> (te_ref \<Rightarrow> nat)
    \<Rightarrow> (string \<times> (int \<times> re_ref) list) list \<Rightarrow> (re_ref \<Rightarrow> nat) \<Rightarrow> work_item list" where
  "syncItems gs ws t sizes =
     concat (map (replicaGroupItems gs ws sizes) t)
       @ concat (map (localGroupItems t ws sizes) gs)"

definition writtenSizes :: "session \<Rightarrow> te_ref \<Rightarrow> nat" where
  "writtenSizes s = (\<lambda>te. writtenSize (teHeap s te))"

text \<open>\<open>enqueued s s' its\<close>: the session \<open>s'\<close> is \<open>s\<close> with the new items \<open>its\<close> appended to
  the work queue, under new references; what the synchronization reads is unchanged.\<close>

definition enqueued :: "session \<Rightarrow> session \<Rightarrow> work_item list \<Rightarrow> bool" where
  "enqueued s s' its =
     (groups s' = groups s \<and> toc s' = toc s \<and> reHeap s' = reHeap s
      \<and> writtenSizes s' = writtenSizes s
      \<and> resultCheckCounter s' = resultCheckCounter s
      \<and> nextItem s' = nextItem s + length its
      \<and> workQueue s' = workQueue s @ [nextItem s ..< nextItem s + length its]
      \<and> map (items s') [nextItem s ..< nextItem s + length its] = its
      \<and> list_all (\<lambda>x. items s' x = items s x) [0 ..< nextItem s])"

text \<open>The opids on the wire. A \<open>results\<close> command is acknowledged when one of the three
  callbacks that wait for its reply receives a reply with status ok. \<open>opidsSinceAck\<close> lists
  the opids of the \<open>add\<close> commands written since the last acknowledgement, and
  \<open>segmentsDistinct\<close> says that this list has had no duplicate at any point of a trace.\<close>

definition isResultsReply :: "cont \<Rightarrow> bool" where
  "isResultsReply k =
     (case k of
        K_handleCheckResultAfterSendingDataFileRecord r rc \<Rightarrow> True
      | K_dataFileFullyStreamed r \<Rightarrow> True
      | K_handleCheckResult r \<Rightarrow> True
      | _ \<Rightarrow> False)"

definition acknowledges :: "action \<Rightarrow> bool" where
  "acknowledges a =
     (case a of
        Received k (Obj rp) \<Rightarrow> isResultsReply k \<and> ok rp
      | _ \<Rightarrow> False)"

definition addOpid :: "action \<Rightarrow> nat option" where
  "addOpid a =
     (case a of
        WriteJSON (AddCmd g t sz opid c) k \<Rightarrow> Some opid
      | _ \<Rightarrow> None)"

definition opidStep :: "nat list \<Rightarrow> action \<Rightarrow> nat list" where
  "opidStep acc a =
     (if acknowledges a then []
      else case addOpid a of Some opid \<Rightarrow> acc @ [opid] | None \<Rightarrow> acc)"

definition opidsSinceAck :: "action list \<Rightarrow> nat list" where
  "opidsSinceAck tr = foldl opidStep [] tr"

fun segmentsDistinct :: "nat list \<Rightarrow> action list \<Rightarrow> bool" where
  "segmentsDistinct acc [] = distinct acc"
| "segmentsDistinct acc (a # tr) = (distinct acc \<and> segmentsDistinct (opidStep acc a) tr)"

definition opidInv :: "session \<Rightarrow> bool" where
  "opidInv s = (segmentsDistinct [] (trace s) \<and> opidsSinceAck (trace s) = [0 ..< nextOpId s])"

definition benign :: "action \<Rightarrow> bool" where
  "benign a = (\<not> acknowledges a \<and> addOpid a = None)"

text \<open>The same before the table of contents has arrived: no opid has been used.\<close>

definition startInv :: "session \<Rightarrow> bool" where
  "startInv s = (opidInv s \<and> nextOpId s = 0 \<and> state s \<noteq> READY)"

text \<open>Concrete sessions for the examples: a master in state \<open>READY\<close> whose slave has the
  days 1 and 2 of group \<open>g\<close>; the same with a group named \<open>undefined\<close> on the slave; a
  session that streams day 1 of group \<open>g\<close> in the background; and a master with an empty
  database that has synchronized an empty slave and forwarded one write.\<close>

definition readySession :: session where
  "readySession =
     (newSession True 2 8 4 [(''g'', group3)] heap3)
       \<lparr>state := READY, toc := [(''g'', [(1, 0), (2, 1)])],
        reHeap := (\<lambda>re. if re = 0 then 10 else 20), nextRe := 2\<rparr>"

definition readySessionU :: session where
  "readySessionU = readySession\<lparr>toc := [(''g'', [(1, 0), (2, 1)]), (''undefined'', [])]\<rparr>"

definition streamingSession :: session where
  "streamingSession =
     (newSession True 2 8 4 [(''g'', group3)] heap3)
       \<lparr>state := BACKGROUND_SYNCHRONIZING, toc := [(''g'', [(1, 0)])],
        reHeap := (\<lambda>re. 30), nextRe := 1,
        items := (\<lambda>r. (fillItem ''g'' 1 0)\<lparr>timeEntryOnReplica := Some 0\<rparr>),
        nextItem := 1, currentWorkItem := Some 0\<rparr>"

definition emptyMaster :: session where
  "emptyMaster = newSession True 2 8 4 [] heap3"

definition firstAddSent :: session where
  "firstAddSent =
     runFrom [Initialize,
              Fire K_continueReplication (Toc []),
              Fire K_locked NoArg,
              Fire K_pingReply (Obj (Reply ''ok'')),
              Adding 2 ''g'' 5 [[104, 105]] 7,
              Fire K_processNextReplicationCommand NoArg] emptyMaster"

section \<open>Group: theorems\<close>

lemma validateGroupNameLoop_undefined: "validateGroupNameLoop nm None i = True"
  by (simp add: js_lt_def)

lemma validateGroupName_code:
  "validateGroupName nm = (nm \<noteq> [] \<and> hd nm \<noteq> CHR ''.'')"
  by (cases nm) (simp_all add: validateGroupName_def string_prop_def nth_opt_def
      validateGroupNameLoop_undefined del: validateGroupNameLoop.simps)

text \<open>
  C8. \<open>validateGroupName\<close> is claimed to return true exactly for the non-empty names that do
  not start with a dot and consist of the characters \<open>[A-Za-z0-9_.-]\<close>. The loop bound reads
  the property \<open>legth\<close>, which is undefined, so that the loop body never runs: the name
  \<open>a/b\<close> is accepted although \<open>/\<close> is not a valid character.
\<close>

theorem validateGroupName_accepts_slash:
  "validateGroupName ''a/b'' = True \<and> validateGroupNameChar (Some (CHR ''/'')) = False"
  by (simp add: validateGroupName_code validateGroupNameChar_def)

text \<open>
  C10. When no time entry is stored under the day timestamp, \<open>removeOne\<close> invokes the
  callback with no error and changes nothing: the group is returned as it was, and the
  callback is the only event (no rename, no close, no spawned process).
\<close>

theorem removeOne_absent:
  "map_of (timeEntries g) d = None \<Longrightarrow> removeOne rn h d g = (g, [Callback None])"
  by (simp add: removeOne_def)

theorem removeOne_absent_witness:
  "map_of (timeEntries group3) 3 = None
   \<and> removeOne rename_ok heap3 3 group3 = (group3, [Callback None])"
proof -
  have h: "map_of (timeEntries group3) 3 = None"
    by (simp add: group3_def)
  show ?thesis
    using h removeOne_absent [OF h, of rename_ok heap3] by simp
qed

lemma filter_delete_keys:
  "filter (\<lambda>e. fst e \<notin> S) (AList.delete k al) = filter (\<lambda>e. fst e \<notin> insert k S) al"
  by (induction al) (auto simp: AList.delete_eq)

lemma removeLoop_ok:
  "distinct (map fst es) \<Longrightarrow>
   list_all (\<lambda>e. map_of (timeEntries g) (fst e) = Some (snd e)) es \<Longrightarrow>
   renamesSucceed rn hid h es \<Longrightarrow>
   removeLoop rn h (map fst es) g dirs ev =
     (None,
      g\<lparr>timeEntryCount := timeEntryCount g - int (length es),
        timeEntries := filter (\<lambda>e. fst e \<notin> set (map fst es)) (timeEntries g)\<rparr>,
      dirs @ map (hiddenOf hid h) es,
      ev @ concat (map (destroyEvents hid h) es))"
proof (induction es arbitrary: g dirs ev)
  case Nil
  then show ?case by simp
next
  case (Cons e es)
  obtain k te where e: "e = (k, te)" by (cases e)
  let ?g = "g\<lparr>timeEntryCount := timeEntryCount g - 1,
               timeEntries := AList.delete k (timeEntries g)\<rparr>"
  from Cons.prems e have look: "map_of (timeEntries g) k = Some te"
    and rn: "rn (te_path (h te)) = Inr (hiddenOf hid h e)"
    by (simp_all add: renamesSucceed_def)
  have d: "distinct (map fst es)" and knot: "k \<notin> fst ` set es"
    using Cons.prems(1) e by auto
  have l: "list_all (\<lambda>e. map_of (timeEntries ?g) (fst e) = Some (snd e)) es"
    using Cons.prems(2) knot
    by (auto simp: list_all_iff AList.delete_conv)
  have r: "renamesSucceed rn hid h es"
    using Cons.prems(3) by (simp add: renamesSucceed_def)
  have filt: "filter (\<lambda>e. fst e \<notin> fst ` set es) (AList.delete k (timeEntries g))
      = filter (\<lambda>e. fst e \<notin> insert k (fst ` set es)) (timeEntries g)"
    by (rule filter_delete_keys)
  show ?case
    using Cons.IH [OF d l r, of "dirs @ [hiddenOf hid h e]"
        "ev @ [Renamed (te_path (h te)) (hiddenOf hid h e), TimeEntryClose te]"]
    by (simp add: e look rn [unfolded e] destroyEvents_def hiddenOf_def filt)
qed

lemma childExits_all:
  "list_all (\<lambda>d. d \<noteq> []) dirs \<Longrightarrow> length dirs \<le> n \<Longrightarrow>
   childExits n dirs = map SpawnRm (rev dirs)"
proof (induction n arbitrary: dirs)
  case 0
  then show ?case by simp
next
  case (Suc n)
  show ?case
  proof (cases "dirs = []")
    case True
    then show ?thesis by (simp add: deleteNextDir_def pop_def)
  next
    case False
    then obtain xs x where dx: "dirs = xs @ [x]"
      by (metis append_butlast_last_id)
    with Suc.prems have "x \<noteq> []" "list_all (\<lambda>d. d \<noteq> []) xs" "length xs \<le> n"
      by simp_all
    then show ?thesis
      using Suc.IH [of xs] by (simp add: dx deleteNextDir_def pop_def)
  qed
qed


lemma deleteNextDir_nonempty:
  "list_all (\<lambda>d. d \<noteq> []) dirs \<Longrightarrow>
   deleteNextDir dirs = (butlast dirs, take 1 (map SpawnRm (rev dirs)))"
  by (cases dirs rule: rev_cases) (simp_all add: deleteNextDir_def pop_def)

lemma older_keys: "map fst (older d es) = filter (\<lambda>k. k < d) (map fst es)"
  by (induction es) (simp_all add: older_def)

lemma older_lookup:
  "distinct (map fst es) \<Longrightarrow> list_all (\<lambda>e. map_of es (fst e) = Some (snd e)) (older d es)"
  by (auto simp: list_all_iff older_def)

lemma notOlder_filter:
  "filter (\<lambda>e. fst e \<notin> set (map fst (older d es))) es = notOlder d es"
  unfolding notOlder_def older_def
  by (rule filter_cong) (force+)

text \<open>
  C7 (amended). For a day timestamp \<open>d\<close> other than 0, when the keys of \<open>timeEntries\<close> are
  distinct and every rename succeeds, \<open>remove\<close> destroys exactly the entries older than
  \<open>d\<close>: each is renamed to its hidden name and closed, in order; they are removed from
  \<open>timeEntries\<close>, which keeps the entries not older than \<open>d\<close> unchanged, and
  \<open>timeEntryCount\<close> drops by their number; \<open>rm -rf\<close> is spawned for the last hidden name
  before the callback is invoked with no error, and for all the others, one at each exit
  of the previous child.
\<close>

theorem remove_older_entries:
  assumes "d \<noteq> 0"
    and "distinct (map fst (timeEntries g))"
    and "renamesSucceed rn hid h (older d (timeEntries g))"
  shows "remove rn h (Some d) g =
           (g\<lparr>timeEntryCount := timeEntryCount g - int (length (older d (timeEntries g))),
              timeEntries := notOlder d (timeEntries g)\<rparr>,
            butlast (map (hiddenOf hid h) (older d (timeEntries g))),
            concat (map (destroyEvents hid h) (older d (timeEntries g)))
              @ take 1 (map SpawnRm (rev (map (hiddenOf hid h) (older d (timeEntries g)))))
              @ [Callback None])
         \<and> childExits (length (older d (timeEntries g)))
              (butlast (map (hiddenOf hid h) (older d (timeEntries g))))
            = drop 1 (map SpawnRm (rev (map (hiddenOf hid h) (older d (timeEntries g)))))"
proof -
  let ?old = "older d (timeEntries g)"
  let ?H = "map (hiddenOf hid h) ?old"
  have dist: "distinct (map fst ?old)"
    using assms(2) by (simp add: older_keys)
  have loop: "removeLoop rn h (filter (\<lambda>k. k < d) (map fst (timeEntries g))) g [] [] =
     (None,
      g\<lparr>timeEntryCount := timeEntryCount g - int (length ?old),
        timeEntries := notOlder d (timeEntries g)\<rparr>,
      ?H, concat (map (destroyEvents hid h) ?old))"
  proof -
    note raw = removeLoop_ok [OF dist older_lookup [OF assms(2)] assms(3), of "[]" "[]"]
    note raw2 = raw [unfolded notOlder_filter]
    show ?thesis
      using raw2 [unfolded older_keys] by simp
  qed
  have ne: "list_all (\<lambda>d. d \<noteq> []) ?H"
    using assms(3) by (simp add: renamesSucceed_def list_all_iff)
  have ne': "list_all (\<lambda>d. d \<noteq> []) (butlast ?H)"
    unfolding list_all_iff
  proof
    fix x assume "x \<in> set (butlast ?H)"
    then have "x \<in> set ?H" by (rule in_set_butlastD)
    with ne show "x \<noteq> []" by (auto simp: list_all_iff)
  qed
  have first: "remove rn h (Some d) g =
           (g\<lparr>timeEntryCount := timeEntryCount g - int (length ?old),
              timeEntries := notOlder d (timeEntries g)\<rparr>,
            butlast ?H,
            concat (map (destroyEvents hid h) ?old) @ take 1 (map SpawnRm (rev ?H))
              @ [Callback None])"
    using assms(1) by (simp add: remove_def truthy_num_def loop deleteNextDir_nonempty [OF ne])
  have "childExits (length ?old) (butlast ?H) = map SpawnRm (rev (butlast ?H))"
    by (rule childExits_all [OF ne']) simp
  also have "\<dots> = drop 1 (map SpawnRm (rev ?H))"
    by (cases ?H rule: rev_cases) simp_all
  finally show ?thesis
    using first by simp
qed

theorem remove_older_entries_witness:
  "(2::int) \<noteq> 0 \<and> distinct (map fst (timeEntries group3))
   \<and> renamesSucceed rename_ok hidden_name heap3 (older 2 (timeEntries group3))
   \<and> remove rename_ok heap3 (Some 2) group3 =
       (group3\<lparr>timeEntryCount := 2, timeEntries := [(2, 1), (5, 2)]\<rparr>, [],
        [Renamed ''db/g/1'' ''.hidden-db/g/1'', TimeEntryClose 0, SpawnRm ''.hidden-db/g/1'',
         Callback None])"
proof -
  have a: "(2::int) \<noteq> 0" by simp
  have b: "distinct (map fst (timeEntries group3))" by (simp add: group3_def)
  have c: "renamesSucceed rename_ok hidden_name heap3 (older 2 (timeEntries group3))"
    by (simp add: renamesSucceed_def older_def group3_def rename_ok_def hidden_name_def
        hiddenOf_def heap3_def)
  show ?thesis
    using a b c remove_older_entries [OF a b c]
    by (simp add: older_def notOlder_def group3_def hiddenOf_def destroyEvents_def
        hidden_name_def heap3_def)
qed

text \<open>
  C7 as stated fails for the day timestamp 0, which the test \<open>if (dayTimestamp)\<close> takes
  for an absent one: the whole group is closed and no entry is left, although none is older
  than 0.
\<close>

theorem remove_zero_counterexample:
  "timeEntries (fst (remove rename_ok heap3 (Some 0) group3)) = []
   \<and> notOlder 0 (timeEntries group3) = [(1, 0), (2, 1), (5, 2)]"
  by (simp add: remove_def truthy_num_def rename_ok_def close_def group3_def notOlder_def)

text \<open>
  C9 as stated fails: \<open>remove\<close> without a day timestamp calls \<open>close\<close>, which sets
  \<open>timeEntryCount\<close> to 0.
\<close>

theorem remove_group_counterexample:
  "timeEntryCount (fst (remove rename_ok heap3 None group3)) \<noteq> timeEntryCount group3"
  by (simp add: remove_def truthy_num_def rename_ok_def close_def group3_def)

text \<open>
  C9 (amended). When the rename of the group's directory succeeds, \<open>remove\<close> without a day
  timestamp renames the directory to its hidden name, closes the group (\<open>timeEntryCount\<close>
  becomes 0, \<open>timeEntries\<close> empty, every time entry is closed unless the count was 0),
  spawns the recursive unlink of the hidden name and invokes the callback with no error.
\<close>

theorem remove_group_closes:
  "rn (path g) = Inr newFilename \<Longrightarrow>
   remove rn h None g =
     (g\<lparr>timeEntryCount := 0, timeEntries := [], closed := True\<rparr>, [],
      [Renamed (path g) newFilename]
        @ (if timeEntryCount g = 0 then [] else map (\<lambda>e. TimeEntryClose (snd e)) (timeEntries g))
        @ [SpawnRm newFilename, Callback None])"
  by (simp add: remove_def truthy_num_def close_def)

theorem remove_group_closes_witness:
  "rename_ok (path group3) = Inr ''.hidden-db/g''
   \<and> remove rename_ok heap3 None group3 =
     (group3\<lparr>timeEntryCount := 0, timeEntries := [], closed := True\<rparr>, [],
      [Renamed ''db/g'' ''.hidden-db/g'', TimeEntryClose 0, TimeEntryClose 1, TimeEntryClose 2,
       SpawnRm ''.hidden-db/g'', Callback None])"
proof -
  have a: "rename_ok (path group3) = Inr ''.hidden-db/g''"
    by (simp add: rename_ok_def group3_def)
  show ?thesis
    using a remove_group_closes [of rename_ok group3 "''.hidden-db/g''" heap3] by (simp add: group3_def)
qed

section \<open>Replica slave session: theorems\<close>

subsection \<open>The work queue\<close>

lemma addToWorkQueue_unfold:
  "addToWorkQueue item cb s =
     (if command item = Some FILL_COMMAND \<and> dataBuffers item \<noteq> None then
        (if resultCheckCounter s + 1 \<ge> resultCheckThreshold s then
           s\<lparr>items := (items s)(nextItem s := item,
                  nextItem s + 1 := emptyItem\<lparr>command := Some CHECK_RESULTS_COMMAND, callback := cb\<rparr>),
             nextItem := nextItem s + 2,
             workQueue := workQueue s @ [nextItem s, nextItem s + 1],
             resultCheckCounter := 0\<rparr>
         else
           s\<lparr>items := (items s)(nextItem s := item\<lparr>callback := cb\<rparr>),
             nextItem := nextItem s + 1,
             workQueue := workQueue s @ [nextItem s],
             resultCheckCounter := resultCheckCounter s + 1\<rparr>)
      else
        s\<lparr>items := (items s)(nextItem s := item\<lparr>callback := cb\<rparr>),
          nextItem := nextItem s + 1,
          workQueue := workQueue s @ [nextItem s]\<rparr>)"
  by (cases "dataBuffers item")
     (simp_all add: addToWorkQueue_def newItem_def push_def setCallbackOfLast_def Let_def)

text \<open>
  C6. \<open>addToWorkQueue\<close> appends the item to the queue. For a \<open>FILL\<close> item that carries
  \<open>dataBuffers\<close> it increments the result-check counter; when the counter then reaches
  \<open>resultCheckThreshold\<close> it is reset to 0 and a \<open>CHECK_RESULTS\<close> item is appended right
  after the \<open>FILL\<close>, with the caller's callback attached to the \<open>CHECK_RESULTS\<close> item
  (the \<open>FILL\<close> is stored as given). In every other case the queue grows by exactly that
  item, with the callback attached to it, and for an item that is no \<open>FILL\<close> with buffers
  the counter is unchanged.
\<close>

theorem addToWorkQueue_appends:
  "addToWorkQueue item cb s =
     (if command item = Some FILL_COMMAND \<and> dataBuffers item \<noteq> None then
        (if resultCheckCounter s + 1 \<ge> resultCheckThreshold s then
           s\<lparr>items := (items s)(nextItem s := item,
                  nextItem s + 1 := emptyItem\<lparr>command := Some CHECK_RESULTS_COMMAND, callback := cb\<rparr>),
             nextItem := nextItem s + 2,
             workQueue := workQueue s @ [nextItem s, nextItem s + 1],
             resultCheckCounter := 0\<rparr>
         else
           s\<lparr>items := (items s)(nextItem s := item\<lparr>callback := cb\<rparr>),
             nextItem := nextItem s + 1,
             workQueue := workQueue s @ [nextItem s],
             resultCheckCounter := resultCheckCounter s + 1\<rparr>)
      else
        s\<lparr>items := (items s)(nextItem s := item\<lparr>callback := cb\<rparr>),
          nextItem := nextItem s + 1,
          workQueue := workQueue s @ [nextItem s]\<rparr>)"
  by (rule addToWorkQueue_unfold)

subsection \<open>The synchronization diff\<close>

lemma enqueued_refl: "enqueued s s []"
  by (simp add: enqueued_def list_all_iff)

lemma enqueued_trans:
  assumes "enqueued s s1 a" and "enqueued s1 s2 b"
  shows "enqueued s s2 (a @ b)"
proof -
  define n where "n = nextItem s"
  define la where "la = length a"
  define lb where "lb = length b"
  have r1: "groups s1 = groups s" "toc s1 = toc s" "reHeap s1 = reHeap s"
    "writtenSizes s1 = writtenSizes s" "resultCheckCounter s1 = resultCheckCounter s"
    and n1: "nextItem s1 = n + la"
    and q1: "workQueue s1 = workQueue s @ [n ..< n + la]"
    and m1: "map (items s1) [n ..< n + la] = a"
    and o1: "list_all (\<lambda>x. items s1 x = items s x) [0 ..< n]"
    using assms(1) unfolding enqueued_def n_def la_def by simp_all
  have r2: "groups s2 = groups s1" "toc s2 = toc s1" "reHeap s2 = reHeap s1"
    "writtenSizes s2 = writtenSizes s1" "resultCheckCounter s2 = resultCheckCounter s1"
    and n2: "nextItem s2 = nextItem s1 + lb"
    and q2: "workQueue s2 = workQueue s1 @ [nextItem s1 ..< nextItem s1 + lb]"
    and m2: "map (items s2) [nextItem s1 ..< nextItem s1 + lb] = b"
    and o2: "list_all (\<lambda>x. items s2 x = items s1 x) [0 ..< nextItem s1]"
    using assms(2) unfolding enqueued_def lb_def by simp_all
  have split: "[n ..< n + (la + lb)] = [n ..< n + la] @ [n + la ..< n + la + lb]"
    using upt_add_eq_append [of n "n + la" lb] by (simp add: add.assoc)
  have keep: "items s2 x = items s1 x" if "x < n + la" for x
    using o2 that unfolding n1 list_all_iff by simp
  have keep0: "items s1 x = items s x" if "x < n" for x
    using o1 that unfolding list_all_iff by simp
  have m1': "map (items s2) [n ..< n + la] = a"
  proof -
    have "map (items s2) [n ..< n + la] = map (items s1) [n ..< n + la]"
      by (rule map_cong) (simp_all add: keep)
    then show ?thesis by (simp only: m1)
  qed
  have m: "map (items s2) [n ..< n + (la + lb)] = a @ b"
    unfolding split map_append m1' using m2 unfolding n1 by simp
  have q: "workQueue s2 = workQueue s @ [n ..< n + (la + lb)]"
    unfolding split q2 q1 n1 by simp
  have old: "list_all (\<lambda>x. items s2 x = items s x) [0 ..< n]"
    unfolding list_all_iff using keep keep0 by simp
  have nn: "nextItem s2 = n + (la + lb)"
    unfolding n2 n1 by simp
  have len: "length (a @ b) = la + lb"
    by (simp add: la_def lb_def)
  show ?thesis
    unfolding enqueued_def len n_def [symmetric]
    using r1 r2 nn q m old by (simp only: simp_thms)
qed

lemma enqueued_add:
  "dataBuffers item = None \<Longrightarrow> callback item = None \<Longrightarrow>
   enqueued s (addToWorkQueue item None s) [item]"
  by (simp add: addToWorkQueue_unfold enqueued_def writtenSizes_def list_all_iff)

lemma enqueued_inc: "enqueued s (incReadOperations te s) []"
  by (simp add: enqueued_def incReadOperations_def writtenSizes_def list_all_iff fun_eq_iff)

lemma scheduled_items:
  "scheduledPrune g d = pruneOneItem g d" "scheduledFill g dst te = fillItem g dst te"
  by (simp_all add: scheduledPrune_def scheduledFill_def pruneOneItem_def fillItem_def
      emptyItem_def)

lemma pruneOneItem_plain [simp]:
  "dataBuffers (pruneOneItem g d) = None" "callback (pruneOneItem g d) = None"
  by (simp_all add: pruneOneItem_def emptyItem_def)

lemma fillItem_plain [simp]:
  "dataBuffers (fillItem g d te) = None" "callback (fillItem g d te) = None"
  by (simp_all add: fillItem_def emptyItem_def)

lemma enqueued_reads:
  "enqueued s s1 a \<Longrightarrow>
   groups s1 = groups s \<and> toc s1 = toc s \<and> reHeap s1 = reHeap s \<and> writtenSizes s1 = writtenSizes s"
  by (simp add: enqueued_def)

lemma enqueued_fill:
  "enqueued s (incReadOperations te (addToWorkQueue (fillItem gn dst te) None s))
     [fillItem gn dst te]"
proof -
  have a: "enqueued s (addToWorkQueue (fillItem gn dst te) None s) [fillItem gn dst te]"
    by (rule enqueued_add) simp_all
  from enqueued_trans [OF a enqueued_inc] show ?thesis by simp
qed

lemma enqueued_prune_fill:
  "enqueued s (incReadOperations te
                 (addToWorkQueue (fillItem gn dst te) None
                   (addToWorkQueue (pruneOneItem gn d) None s)))
     [pruneOneItem gn d, fillItem gn dst te]"
proof -
  have a: "enqueued s (addToWorkQueue (pruneOneItem gn d) None s) [pruneOneItem gn d]"
    by (rule enqueued_add) simp_all
  from enqueued_trans [OF a enqueued_fill] show ?thesis by simp
qed

lemma scheduleOnReplica_enqueued:
  "enqueued s (scheduleOnReplica gn lg es s)
     (concat (map (replicaEntryItems (writtenSizes s) (reHeap s) gn lg) es))"
proof (induction es arbitrary: s)
  case Nil
  show ?case by (simp add: enqueued_refl)
next
  case (Cons e es)
  obtain dst re where e: "e = (dst, re)" by (cases e)
  define s1 where "s1 = (case map_of (timeEntries lg) dst of
          Some localTimeEntry \<Rightarrow>
            (if writtenSize (teHeap s localTimeEntry) < reHeap s re then
               incReadOperations localTimeEntry
                 (addToWorkQueue (fillItem gn dst localTimeEntry) None
                   (addToWorkQueue (pruneOneItem gn (Some dst)) None s))
             else s)
        | None \<Rightarrow> addToWorkQueue (pruneOneItem gn (Some dst)) None s)"
  have step: "scheduleOnReplica gn lg (e # es) s = scheduleOnReplica gn lg es s1"
    by (simp add: e s1_def)
  have head: "enqueued s s1 (replicaEntryItems (writtenSizes s) (reHeap s) gn lg e)"
  proof (cases "map_of (timeEntries lg) dst")
    case None
    then show ?thesis
      by (simp add: s1_def replicaEntryItems_def e enqueued_add scheduled_items)
  next
    case (Some te)
    then show ?thesis
      by (simp add: s1_def replicaEntryItems_def e writtenSizes_def enqueued_refl scheduled_items
          enqueued_prune_fill)
  qed
  have reads: "writtenSizes s1 = writtenSizes s" "reHeap s1 = reHeap s"
    using enqueued_reads [OF head] by simp_all
  have tail: "enqueued s1 (scheduleOnReplica gn lg es s1)
          (concat (map (replicaEntryItems (writtenSizes s) (reHeap s) gn lg) es))"
    using Cons.IH [of s1] unfolding reads .
  show ?case
    unfolding step using enqueued_trans [OF head tail] by simp
qed

lemma scheduleReplicaGroups_enqueued:
  "enqueued s (scheduleReplicaGroups t s)
     (concat (map (replicaGroupItems (groups s) (writtenSizes s) (reHeap s)) t))"
proof (induction t arbitrary: s)
  case Nil
  show ?case by (simp add: enqueued_refl)
next
  case (Cons ge t)
  obtain gn es where ge: "ge = (gn, es)" by (cases ge)
  define s1 where "s1 = (case map_of (groups s) gn of
          Some localGroup \<Rightarrow> scheduleOnReplica gn localGroup es s
        | None \<Rightarrow> addToWorkQueue (pruneOneItem gn None) None s)"
  have step: "scheduleReplicaGroups (ge # t) s = scheduleReplicaGroups t s1"
    by (simp add: ge s1_def)
  have head: "enqueued s s1 (replicaGroupItems (groups s) (writtenSizes s) (reHeap s) ge)"
    by (cases "map_of (groups s) gn")
       (simp_all add: s1_def replicaGroupItems_def ge enqueued_add scheduleOnReplica_enqueued scheduled_items)
  have reads: "groups s1 = groups s" "writtenSizes s1 = writtenSizes s" "reHeap s1 = reHeap s"
    using enqueued_reads [OF head] by simp_all
  have tail: "enqueued s1 (scheduleReplicaGroups t s1)
          (concat (map (replicaGroupItems (groups s) (writtenSizes s) (reHeap s)) t))"
    using Cons.IH [of s1] unfolding reads .
  show ?case
    unfolding step using enqueued_trans [OF head tail] by simp
qed

lemma scheduleLocalEntries_enqueued:
  "enqueued s (scheduleLocalEntries gn (map_of t gn) es s)
     (concat (map (localEntryItems t (writtenSizes s) (reHeap s) gn) es))"
proof (induction es arbitrary: s)
  case Nil
  show ?case by (simp add: enqueued_refl)
next
  case (Cons e es)
  obtain dst te where e: "e = (dst, te)" by (cases e)
  define s1 where "s1 = (case (case map_of t gn of Some g \<Rightarrow> map_of g dst | None \<Rightarrow> None) of
          Some entryOnReplica \<Rightarrow>
            (if writtenSize (teHeap s te) > reHeap s entryOnReplica then
               incReadOperations te (addToWorkQueue (fillItem gn dst te) None s)
             else s)
        | None \<Rightarrow>
            (if writtenSize (teHeap s te) > 0 then
               incReadOperations te (addToWorkQueue (fillItem gn dst te) None s)
             else s))"
  have step: "scheduleLocalEntries gn (map_of t gn) (e # es) s
      = scheduleLocalEntries gn (map_of t gn) es s1"
    by (simp add: e s1_def)
  have head: "enqueued s s1 (localEntryItems t (writtenSizes s) (reHeap s) gn e)"
  proof (cases "map_of t gn")
    case None
    then show ?thesis
      by (simp add: s1_def localEntryItems_def slaveSize_def e writtenSizes_def enqueued_refl scheduled_items
          enqueued_fill)
  next
    case (Some g)
    then show ?thesis
      by (cases "map_of g dst")
         (simp_all add: s1_def localEntryItems_def slaveSize_def e writtenSizes_def scheduled_items
           enqueued_refl enqueued_fill)
  qed
  have reads: "writtenSizes s1 = writtenSizes s" "reHeap s1 = reHeap s"
    using enqueued_reads [OF head] by simp_all
  have tail: "enqueued s1 (scheduleLocalEntries gn (map_of t gn) es s1)
          (concat (map (localEntryItems t (writtenSizes s) (reHeap s) gn) es))"
    using Cons.IH [of s1] unfolding reads .
  show ?case
    unfolding step using enqueued_trans [OF head tail] by simp
qed

lemma scheduleLocalGroups_enqueued:
  "enqueued s (scheduleLocalGroups gs s)
     (concat (map (localGroupItems (toc s) (writtenSizes s) (reHeap s)) gs))"
proof (induction gs arbitrary: s)
  case Nil
  show ?case by (simp add: enqueued_refl)
next
  case (Cons gg gs)
  obtain gn lg where gg: "gg = (gn, lg)" by (cases gg)
  define s1 where "s1 = scheduleLocalEntries gn (map_of (toc s) gn) (timeEntries lg) s"
  have step: "scheduleLocalGroups (gg # gs) s = scheduleLocalGroups gs s1"
    by (simp add: gg s1_def)
  have head: "enqueued s s1 (localGroupItems (toc s) (writtenSizes s) (reHeap s) gg)"
    by (simp add: s1_def localGroupItems_def gg scheduleLocalEntries_enqueued)
  have reads: "toc s1 = toc s" "writtenSizes s1 = writtenSizes s" "reHeap s1 = reHeap s"
    using enqueued_reads [OF head] by simp_all
  have tail: "enqueued s1 (scheduleLocalGroups gs s1)
          (concat (map (localGroupItems (toc s) (writtenSizes s) (reHeap s)) gs))"
    using Cons.IH [of s1] unfolding reads .
  show ?case
    unfolding step using enqueued_trans [OF head tail] by simp
qed

lemma schedule_enqueued:
  "enqueued s (scheduleSlaveSynchronizationCommands s)
     (syncItems (groups s) (writtenSizes s) (toc s) (reHeap s))"
proof -
  define s1 where "s1 = scheduleReplicaGroups (toc s) s"
  have a: "enqueued s s1 (concat (map (replicaGroupItems (groups s) (writtenSizes s) (reHeap s)) (toc s)))"
    unfolding s1_def by (rule scheduleReplicaGroups_enqueued)
  have reads: "groups s1 = groups s" "toc s1 = toc s" "writtenSizes s1 = writtenSizes s"
    "reHeap s1 = reHeap s"
    using enqueued_reads [OF a] by simp_all
  have b: "enqueued s1 (scheduleLocalGroups (groups s) s1)
             (concat (map (localGroupItems (toc s) (writtenSizes s) (reHeap s)) (groups s)))"
    using scheduleLocalGroups_enqueued [of s1 "groups s"] unfolding reads .
  from enqueued_trans [OF a b] show ?thesis
    by (simp add: scheduleSlaveSynchronizationCommands_def syncItems_def s1_def)
qed

text \<open>
  C1. For every session (every database and every mirror of the slave's table of contents),
  \<open>scheduleSlaveSynchronizationCommands\<close> leaves the items already queued in place and
  appends exactly the items of \<open>syncItems\<close>, in that order: a \<open>PRUNE_ONE\<close> for each group
  of the slave that is absent locally, a \<open>PRUNE_ONE\<close> for each entry of the slave whose
  group exists locally but whose day does not, a \<open>PRUNE_ONE\<close> immediately followed by a
  \<open>FILL\<close> for each entry on both sides whose size on the slave is greater than the local
  written size, and a \<open>FILL\<close> for each local entry whose written size is greater than the
  size on the slave, or positive when the slave has no such entry; nothing for equal sizes.
  The result-check counter is unchanged. The items of \<open>syncItems\<close> are records written out
  in full: a scheduled prune carries the command \<open>PRUNE_ONE\<close>, the group name and the day
  (none for a whole group), a scheduled fill the command \<open>FILL\<close>, the group name, the day
  and the local time entry, and no buffers.
\<close>

theorem schedule_enqueues_exactly:
  "workQueue (scheduleSlaveSynchronizationCommands s)
     = workQueue s @ drop (length (workQueue s)) (workQueue (scheduleSlaveSynchronizationCommands s))
   \<and> map (items (scheduleSlaveSynchronizationCommands s))
       (drop (length (workQueue s)) (workQueue (scheduleSlaveSynchronizationCommands s)))
     = syncItems (groups s) (writtenSizes s) (toc s) (reHeap s)
   \<and> resultCheckCounter (scheduleSlaveSynchronizationCommands s) = resultCheckCounter s
   \<and> command (scheduledPrune g d) = Some PRUNE_ONE_COMMAND
   \<and> groupName (scheduledPrune g d) = Some g
   \<and> dayTimestamp (scheduledPrune g d) = d
   \<and> command (scheduledFill g dst te) = Some FILL_COMMAND
   \<and> groupName (scheduledFill g dst te) = Some g
   \<and> dayTimestamp (scheduledFill g dst te) = Some dst
   \<and> timeEntry (scheduledFill g dst te) = Some te
   \<and> dataBuffers (scheduledFill g dst te) = None"
proof -
  have "workQueue (scheduleSlaveSynchronizationCommands s)
     = workQueue s @ drop (length (workQueue s)) (workQueue (scheduleSlaveSynchronizationCommands s))
   \<and> map (items (scheduleSlaveSynchronizationCommands s))
       (drop (length (workQueue s)) (workQueue (scheduleSlaveSynchronizationCommands s)))
     = syncItems (groups s) (writtenSizes s) (toc s) (reHeap s)
   \<and> resultCheckCounter (scheduleSlaveSynchronizationCommands s) = resultCheckCounter s"
    using schedule_enqueued [of s] by (simp add: enqueued_def)
  then show ?thesis
    by (simp add: scheduledPrune_def scheduledFill_def)
qed

subsection \<open>The read-operations guard of a fill item\<close>

text \<open>
  C2. A \<open>FILL\<close> item is claimed to release its time entry (\<open>decReadOperations\<close>) exactly
  once when it is cleaned up, also when it completed normally. A write to day 5 of group
  \<open>g\<close> is forwarded in state \<open>READY\<close>: \<open>onAddingToOurDatabase\<close> counts the read operations
  of the time entry up to 1, \<open>processNextReplicationCommand\<close> deletes the \<open>command\<close> field
  of the item before \<open>fill\<close> sends it, and when the write is done \<open>cleanupWorkItem\<close> marks
  the item cleaned and invokes its callback, but no longer sees a \<open>FILL\<close> item: the count
  stays at 1.
\<close>

theorem fill_guard_not_released:
  "(case reacts [Adding 2 ''g'' 5 [[104, 105]] 7,
                 Fire K_processNextReplicationCommand NoArg,
                 Fire (K_written 0) (Err None)] readySession of
      Inl e \<Rightarrow> False
    | Inr s \<Rightarrow>
        readOperations (teHeap readySession 2) = 0
        \<and> readOperations (teHeap s 2) = 1
        \<and> cleaned (items s 0) \<and> workQueue s = [] \<and> currentWorkItem s = None
        \<and> trace s = [NextTick K_processNextReplicationCommand,
                      WriteJSON (AddCmd (Some ''g'') (Some 432000) 2 0 None) None,
                      Write [104, 105] (Some (K_written 0)),
                      Invoke 7])"
  by (simp add: react_def onAddingToOurDatabase_def readySession_def newSession_def connected_def
      incReadOperations_def addToWorkQueue_unfold emptyItem_def startReplicator_def emit_def
      heap3_def Let_def bind_e_def fire_def isRead_def dispatch_def
      processNextReplicationCommand.simps delete_command_def fill_def key_of_def
      fillBySendingBuffers_def writeJSON_def writeBuffer_def written_def finishWorkItem_def
      cleanupWorkItem_def calculateRecordSize_def decReadOperations_def)

subsection \<open>Refilling a replica whose prefix cannot be read\<close>

text \<open>\<open>fill\<close> links the item to the mirror: when it returns, \<open>timeEntryOnReplica\<close> of
  the item is the object that the mirror records for the group and the day of the item.\<close>

lemma writeBuffers_keeps:
  "items (writeBuffers r bufs s) = items s \<and> toc (writeBuffers r bufs s) = toc s"
  by (induction r bufs s rule: writeBuffers.induct) (simp_all add: writeBuffer_def emit_def)

lemma fillBySendingBuffers_keeps:
  "fillBySendingBuffers r s = Inr s' \<Longrightarrow> items s' = items s \<and> toc s' = toc s"
  by (auto simp: fillBySendingBuffers_def Let_def writeBuffers_keeps writeJSON_def emit_def
      split: if_splits option.splits)

lemma fillByStreamingDataFile_keeps:
  "fillByStreamingDataFile r s = Inr s' \<Longrightarrow> items s' = items s \<and> toc s' = toc s"
  by (auto simp: fillByStreamingDataFile_def emit_def split: option.splits)

lemma fill_links:
  assumes "fill r s = Inr s'"
    and "groupName (items s r) = Some g" and "dayTimestamp (items s r) = Some d"
  shows "\<exists>re. timeEntryOnReplica (items s' r) = Some re \<and> mirrorEntry s' g d = Some re"
proof (cases "map_of (toc s) g")
  case None
  with assms show ?thesis
    by (auto simp: fill_def key_of_def Let_def mirrorEntry_def AList.update_conv'
        split: if_splits dest!: fillBySendingBuffers_keeps fillByStreamingDataFile_keeps)
next
  case (Some es)
  with assms show ?thesis
    by (cases "map_of es d")
       (auto simp: fill_def key_of_def Let_def mirrorEntry_def AList.update_conv'
        split: if_splits dest!: fillBySendingBuffers_keeps fillByStreamingDataFile_keeps)
qed

text \<open>
  C3. A connected session in state \<open>BACKGROUND_SYNCHRONIZING\<close> or \<open>LOCKED_SYNCHRONIZING\<close>
  streams the fill item \<open>r\<close> of group \<open>g\<close> and day \<open>d\<close>, whose mirror entry is \<open>re\<close>. The
  first read is \<open>timeEntry.get\<close> at the offset that is the size in the mirror. When its
  callback gets an error, the session writes \<open>removeOne\<close> for \<open>g\<close> and \<open>d\<close> and registers
  a read for the reply, and nothing else changes. On a reply with status ok it sets the
  size in the mirror to 0 and starts \<open>timeEntry.each\<close> at offset 0; on any other reply it
  disconnects, without starting to stream and without changing the mirror.
\<close>

theorem streaming_fill_refill:
  assumes "state s = BACKGROUND_SYNCHRONIZING \<or> state s = LOCKED_SYNCHRONIZING"
    and "\<not> socketDestroyed s"
    and "groupName (items s r) = Some g" and "dayTimestamp (items s r) = Some d"
    and "timeEntry (items s r) = Some te"
    and "timeEntryOnReplica (items s r) = Some re"
    and "mirrorEntry s g d = Some re"
    and "status rp \<noteq> ''ok''"
  shows
    "fillByStreamingDataFile r s =
       Inr (s\<lparr>trace := trace s @ [TimeEntryGet te (reHeap s re) (K_fillByStreamingDataFile_get r)]\<rparr>)
     \<and> mirrorSize s g d = Some (reHeap s re)
     \<and> fire (K_fillByStreamingDataFile_get r) (EachResult (Some e) rc) s =
       Inr (s\<lparr>trace := trace s @ [WriteJSON (RemoveOneCmd (Some g) (Some d)) None,
                                   ReadJsonObject (K_fillByStreamingDataFile_reply r)]\<rparr>)
     \<and> fire (K_fillByStreamingDataFile_reply r) (Obj (Reply ''ok'')) s =
       Inr (s\<lparr>reHeap := (reHeap s)(re := 0),
              trace := trace s @ [Received (K_fillByStreamingDataFile_reply r) (Obj (Reply ''ok'')),
                                  TimeEntryEach te 0 (K_startStreamingDataFile_each r)]\<rparr>)
     \<and> mirrorSize (s\<lparr>reHeap := (reHeap s)(re := 0)\<rparr>) g d = Some 0
     \<and> fire (K_fillByStreamingDataFile_reply r) (Obj rp) s =
       Inr (s\<lparr>state := DISCONNECTED,
              trace := trace s @ [Received (K_fillByStreamingDataFile_reply r) (Obj rp),
                                  SocketDestroy]\<rparr>)"
proof -
  have c: "connected s"
    using assms(1,2) by (auto simp: connected_def)
  have 1: "fire (K_fillByStreamingDataFile_get r) (EachResult (Some e) rc) s =
       Inr (s\<lparr>trace := trace s @ [WriteJSON (RemoveOneCmd (Some g) (Some d)) None,
                                   ReadJsonObject (K_fillByStreamingDataFile_reply r)]\<rparr>)"
    using c assms(3,4)
    by (simp add: fire_def isRead_def dispatch_def fillByStreamingDataFile_get_def
        readJsonObject_def writeJSON_def emit_def)
  have 2: "fire (K_fillByStreamingDataFile_reply r) (Obj (Reply ''ok'')) s =
       Inr (s\<lparr>reHeap := (reHeap s)(re := 0),
              trace := trace s @ [Received (K_fillByStreamingDataFile_reply r) (Obj (Reply ''ok'')),
                                  TimeEntryEach te 0 (K_startStreamingDataFile_each r)]\<rparr>)"
    using c assms(1,5,6)
    by (auto simp: fire_def isRead_def dispatch_def fillByStreamingDataFile_reply_def ok_def
        status_def startStreamingDataFile_def emit_def)
  have 3: "mirrorSize (s\<lparr>reHeap := (reHeap s)(re := 0)\<rparr>) g d = Some 0"
    using assms(7) by (auto simp: mirrorSize_def mirrorEntry_def split: option.splits)
  have 4: "fire (K_fillByStreamingDataFile_reply r) (Obj rp) s =
       Inr (s\<lparr>state := DISCONNECTED,
              trace := trace s @ [Received (K_fillByStreamingDataFile_reply r) (Obj rp),
                                  SocketDestroy]\<rparr>)"
    using c assms(8)
    by (simp add: fire_def isRead_def dispatch_def fillByStreamingDataFile_reply_def ok_def
        disconnect_def emit_def connected_def)
  have 0: "fillByStreamingDataFile r s =
       Inr (s\<lparr>trace := trace s @ [TimeEntryGet te (reHeap s re) (K_fillByStreamingDataFile_get r)]\<rparr>)"
    using assms(5,6) by (simp add: fillByStreamingDataFile_def emit_def)
  have 5: "mirrorSize s g d = Some (reHeap s re)"
    using assms(7) by (auto simp: mirrorSize_def mirrorEntry_def split: option.splits)
  from 0 5 1 2 3 4 show ?thesis by blast
qed

theorem streaming_fill_refill_witness:
  "(state streamingSession = BACKGROUND_SYNCHRONIZING \<or> state streamingSession = LOCKED_SYNCHRONIZING)
   \<and> \<not> socketDestroyed streamingSession
   \<and> groupName (items streamingSession 0) = Some ''g''
   \<and> dayTimestamp (items streamingSession 0) = Some 1
   \<and> timeEntry (items streamingSession 0) = Some 0
   \<and> timeEntryOnReplica (items streamingSession 0) = Some 0
   \<and> mirrorEntry streamingSession ''g'' 1 = Some 0
   \<and> status (Reply ''error'') \<noteq> ''ok''
   \<and> fillByStreamingDataFile 0 streamingSession =
       Inr (streamingSession\<lparr>trace := [TimeEntryGet 0 30 (K_fillByStreamingDataFile_get 0)]\<rparr>)
   \<and> fire (K_fillByStreamingDataFile_get 0) (EachResult (Some (FsError ''read'')) None) streamingSession =
       Inr (streamingSession\<lparr>trace := [WriteJSON (RemoveOneCmd (Some ''g'') (Some 1)) None,
                                   ReadJsonObject (K_fillByStreamingDataFile_reply 0)]\<rparr>)
   \<and> mirrorSize (streamingSession\<lparr>reHeap := (reHeap streamingSession)(0 := 0)\<rparr>) ''g'' 1 = Some 0"
proof -
  have a: "state streamingSession = BACKGROUND_SYNCHRONIZING \<or> state streamingSession = LOCKED_SYNCHRONIZING"
    and b: "\<not> socketDestroyed streamingSession"
    and c: "groupName (items streamingSession 0) = Some ''g''"
    and d: "dayTimestamp (items streamingSession 0) = Some 1"
    and e: "timeEntry (items streamingSession 0) = Some 0"
    and f: "timeEntryOnReplica (items streamingSession 0) = Some 0"
    and g: "mirrorEntry streamingSession ''g'' 1 = Some 0"
    and h: "status (Reply ''error'') \<noteq> ''ok''"
    and t: "trace streamingSession = []" "reHeap streamingSession 0 = 30"
    by (simp_all add: streamingSession_def newSession_def fillItem_def emptyItem_def
        mirrorEntry_def status_def)
  show ?thesis
    using a b c d e f g h t
      streaming_fill_refill [OF a b c d e f g h, of "FsError ''read''" None]
    by simp
qed

subsection \<open>Opids\<close>

lemma segmentsDistinct_append:
  "segmentsDistinct acc (xs @ ys)
     = (segmentsDistinct acc xs \<and> segmentsDistinct (foldl opidStep acc xs) ys)"
proof (induction xs arbitrary: acc)
  case Nil
  show ?case by (cases ys) auto
next
  case (Cons x xs)
  then show ?case by auto
qed

lemma segmentsDistinct_distinct: "segmentsDistinct acc tr \<Longrightarrow> distinct acc"
  by (cases tr) simp_all

lemma opidInv_same:
  "trace s' = trace s \<Longrightarrow> nextOpId s' = nextOpId s \<Longrightarrow> opidInv s' = opidInv s"
  by (simp add: opidInv_def)

lemma opidInv_emit_benign [simp]: "benign a \<Longrightarrow> opidInv (emit a s) = opidInv s"
  by (auto simp: opidInv_def emit_def benign_def opidsSinceAck_def segmentsDistinct_append
      opidStep_def dest: segmentsDistinct_distinct)

lemma opidInv_add:
  assumes "opidInv s" and "trace s1 = trace s" and "nextOpId s1 = nextOpId s + 1"
  shows "opidInv (writeJSON (AddCmd g t sz (nextOpId s) c) k s1)"
  using assms
  by (auto simp: opidInv_def writeJSON_def emit_def opidsSinceAck_def segmentsDistinct_append
      opidStep_def acknowledges_def addOpid_def)

lemma opidInv_ack:
  assumes "opidInv s" and "isResultsReply k" and "ok rp"
    and "trace s1 = trace s @ [Received k (Obj rp)]" and "nextOpId s1 = 0"
  shows "opidInv s1"
  using assms
  by (auto simp: opidInv_def opidsSinceAck_def segmentsDistinct_append
      opidStep_def acknowledges_def dest: segmentsDistinct_distinct)

lemma benign_simps [simp]:
  "benign (Write b ko)" "benign (ReadJsonObject k)" "benign (TimeEntryGet te n k)"
  "benign (TimeEntryEach te n k)" "benign RecordStop" "benign RecordReadNext"
  "benign (NextTick k)" "benign (DatabaseLock k)" "benign DatabaseUnlock" "benign DatabaseOn"
  "benign DatabaseRemoveListener" "benign SocketDestroy" "benign DisconnectWithError"
  "benign InputResume" "benign (Invoke cb)"
  "benign (WriteJSON (StatusMsg st) ko)" "benign (WriteJSON GetTocCmd ko)"
  "benign (WriteJSON (RemoveOneCmd g d) ko)" "benign (WriteJSON (RemoveCmd g) ko)"
  "benign (WriteJSON ResultsCmd ko)" "benign (WriteJSON PingCmd ko)"
  "benign (Received k (Toc t))" "benign (Received k NoArg)" "benign (Received k (Err e))"
  "benign (Received k (EachResult e rc))"
  "\<not> isResultsReply k \<Longrightarrow> benign (Received k a)"
  "\<not> ok rp \<Longrightarrow> benign (Received k (Obj rp))"
  by (auto simp: benign_def acknowledges_def addOpid_def split: arg.splits)

lemma opidInv_updates [simp]:
  "opidInv (s\<lparr>state := v1\<rparr>) = opidInv s"
  "opidInv (s\<lparr>socketDestroyed := v2\<rparr>) = opidInv s"
  "opidInv (s\<lparr>groups := v3\<rparr>) = opidInv s"
  "opidInv (s\<lparr>teHeap := v4\<rparr>) = opidInv s"
  "opidInv (s\<lparr>toc := v5\<rparr>) = opidInv s"
  "opidInv (s\<lparr>reHeap := v6\<rparr>) = opidInv s"
  "opidInv (s\<lparr>nextRe := v7\<rparr>) = opidInv s"
  "opidInv (s\<lparr>items := v8\<rparr>) = opidInv s"
  "opidInv (s\<lparr>nextItem := v9\<rparr>) = opidInv s"
  "opidInv (s\<lparr>workQueue := v10\<rparr>) = opidInv s"
  "opidInv (s\<lparr>currentWorkItem := v11\<rparr>) = opidInv s"
  "opidInv (s\<lparr>resultCheckCounter := v12\<rparr>) = opidInv s"
  "opidInv (s\<lparr>cleanupHandler := v13\<rparr>) = opidInv s"
  "opidInv (s\<lparr>replicatorStarted := v14\<rparr>) = opidInv s"
  by (simp_all add: opidInv_def)

lemma opidInv_basic [simp]:
  "opidInv (readJsonObject k s) = opidInv s"
  "opidInv (writeBuffer b ko s) = opidInv s"
  "opidInv (disconnect s) = opidInv s"
  "opidInv (disconnectWithError s) = opidInv s"
  "opidInv (incReadOperations te s) = opidInv s"
  "opidInv (decReadOperations te s) = opidInv s"
  "opidInv (delete_command r s) = opidInv s"
  "opidInv (startReplicator s) = opidInv s"
  "opidInv (checkResults r s) = opidInv s"
  "opidInv (writeJSON (StatusMsg st) ko s) = opidInv s"
  "opidInv (writeJSON GetTocCmd ko s) = opidInv s"
  "opidInv (writeJSON (RemoveOneCmd g d) ko s) = opidInv s"
  "opidInv (writeJSON (RemoveCmd g) ko s) = opidInv s"
  "opidInv (writeJSON ResultsCmd ko s) = opidInv s"
  "opidInv (writeJSON PingCmd ko s) = opidInv s"
  by (simp_all add: readJsonObject_def writeBuffer_def disconnect_def disconnectWithError_def
      incReadOperations_def decReadOperations_def delete_command_def startReplicator_def
      checkResults_def writeJSON_def)

lemma opidInv_addToWorkQueue [simp]: "opidInv (addToWorkQueue item cb s) = opidInv s"
  by (rule opidInv_same) (simp_all add: addToWorkQueue_unfold)

lemma opidInv_scheduleOnReplica [simp]: "opidInv (scheduleOnReplica gn lg es s) = opidInv s"
  by (induction gn lg es s rule: scheduleOnReplica.induct) (simp_all split: option.splits)

lemma opidInv_scheduleReplicaGroups [simp]: "opidInv (scheduleReplicaGroups t s) = opidInv s"
  by (induction t s rule: scheduleReplicaGroups.induct) (simp_all split: option.splits)

lemma opidInv_scheduleLocalEntries [simp]:
  "opidInv (scheduleLocalEntries gn gor es s) = opidInv s"
  by (induction gn gor es s rule: scheduleLocalEntries.induct) (simp_all split: option.splits)

lemma opidInv_scheduleLocalGroups [simp]: "opidInv (scheduleLocalGroups gs s) = opidInv s"
  by (induction gs s rule: scheduleLocalGroups.induct) simp_all

lemma opidInv_schedule [simp]:
  "opidInv (scheduleSlaveSynchronizationCommands s) = opidInv s"
  by (simp add: scheduleSlaveSynchronizationCommands_def)

lemma opidInv_cleanupWorkItem:
  "cleanupWorkItem r s = Inr s' \<Longrightarrow> opidInv s' = opidInv s"
  by (auto simp: cleanupWorkItem_def bind_e_def Let_def split: if_splits option.splits)

lemma opidInv_cleanupItems:
  "cleanupItems rs s = Inr s' \<Longrightarrow> opidInv s' = opidInv s"
proof (induction rs arbitrary: s)
  case Nil
  then show ?case by simp
next
  case (Cons r rs)
  then show ?case
    by (auto simp: bind_e_def split: sum.splits dest: opidInv_cleanupWorkItem)
qed

lemma opidInv_cleanupWorkQueue:
  "cleanupWorkQueue s = Inr s' \<Longrightarrow> opidInv s' = opidInv s"
  by (auto simp: cleanupWorkQueue_def bind_e_def Let_def split: sum.splits option.splits
      dest: opidInv_cleanupWorkItem opidInv_cleanupItems)

lemma opidInv_pruneNextTimestamp:
  "pruneNextTimestamp r ds s = Inr (s', again) \<Longrightarrow> opidInv s' = opidInv s"
  by (auto simp: pruneNextTimestamp_def bind_e_def split: prod.splits option.splits sum.splits
      dest: opidInv_cleanupWorkItem)

lemma opidInv_pruneAll:
  "pruneAll r s = Inr (s', again) \<Longrightarrow> opidInv s' = opidInv s"
  by (auto simp: pruneAll_def bind_e_def Let_def split: option.splits sum.splits
      dest: opidInv_cleanupWorkItem opidInv_pruneNextTimestamp)

lemma opidInv_pruneOne:
  "pruneOne r s = Inr s' \<Longrightarrow> opidInv s' = opidInv s"
  by (auto simp: pruneOne_def split: option.splits if_splits)

lemma opidInv_writeBuffers [simp]: "opidInv (writeBuffers r bufs s) = opidInv s"
  by (induction r bufs s rule: writeBuffers.induct) simp_all

lemma opidInv_fillBySendingBuffers:
  "fillBySendingBuffers r s = Inr s' \<Longrightarrow> opidInv s \<Longrightarrow> opidInv s'"
  by (auto simp: fillBySendingBuffers_def Let_def opidInv_add split: if_splits option.splits)

lemma opidInv_fillByStreamingDataFile:
  "fillByStreamingDataFile r s = Inr s' \<Longrightarrow> opidInv s' = opidInv s"
  by (auto simp: fillByStreamingDataFile_def split: option.splits)

lemma opidInv_startStreamingDataFile:
  "startStreamingDataFile r s = Inr s' \<Longrightarrow> opidInv s' = opidInv s"
  by (auto simp: startStreamingDataFile_def split: option.splits if_splits)

lemma opidInv_fill:
  "fill r s = Inr s' \<Longrightarrow> opidInv s \<Longrightarrow> opidInv s'"
  by (auto simp: fill_def Let_def split: option.splits if_splits
      dest!: opidInv_fillBySendingBuffers opidInv_fillByStreamingDataFile)

lemma opidInv_doneBackgroundSynchronizing:
  "doneBackgroundSynchronizing s = Inr s' \<Longrightarrow> opidInv s' = opidInv s"
  by (auto simp: doneBackgroundSynchronizing_def split: if_splits)

lemma opidInv_doneLockedSynchronizing:
  "doneLockedSynchronizing s = Inr s' \<Longrightarrow> opidInv s' = opidInv s"
  by (auto simp: doneLockedSynchronizing_def split: if_splits)

lemma opidInv_processNext:
  "processNextReplicationCommand s = Inr s' \<Longrightarrow> opidInv s \<Longrightarrow> opidInv s'"
proof (induction s arbitrary: s' rule: processNextReplicationCommand.induct)
  case (1 s)
  show ?case
  proof (cases "connected s")
    case False
    with "1.prems" show ?thesis
      by (simp add: processNextReplicationCommand.simps)
  next
    case True
    note conn = True
    then have nn: "\<not> \<not> connected s" by simp
    show ?thesis
    proof (cases "workQueue s")
      case (Cons r rest)
      define s1 where "s1 = s\<lparr>workQueue := rest, currentWorkItem := Some r\<rparr>"
      have i1: "opidInv (delete_command r s1)"
        using "1.prems"(2) by (simp add: s1_def)
      show ?thesis
      proof (cases "command (items s1 r)")
        case None
        with "1.prems"(1) conn Cons show ?thesis
          by (simp add: processNextReplicationCommand.simps [of s] s1_def)
      next
        case (Some c)
        show ?thesis
        proof (cases c)
          case PRUNE_ONE_COMMAND
          with "1.prems"(1) conn Cons Some
          have "pruneOne r (delete_command r s1) = Inr s'"
            by (simp add: processNextReplicationCommand.simps [of s] s1_def)
          from opidInv_pruneOne [OF this] i1 show ?thesis by simp
        next
          case PRUNE_ALL_COMMAND
          with "1.prems"(1) conn Cons Some
          have run: "(case pruneAll r (delete_command r s1) of
                     Inl e \<Rightarrow> Inl e
                   | Inr (s2, again) \<Rightarrow>
                       if again then processNextReplicationCommand s2 else Inr s2) = Inr s'"
            by (simp add: processNextReplicationCommand.simps [of s] s1_def)
          then obtain s2 again where p: "pruneAll r (delete_command r s1) = Inr (s2, again)"
            by (auto split: sum.splits)
          from opidInv_pruneAll [OF p] i1 have i2: "opidInv s2" by simp
          show ?thesis
          proof (cases again)
            case True
            with run p have "processNextReplicationCommand s2 = Inr s'" by simp
            from "1.IH"(2) [OF nn Cons s1_def Some PRUNE_ALL_COMMAND p refl True this i2]
            show ?thesis .
          next
            case False
            with run p i2 show ?thesis by simp
          qed
        next
          case FILL_COMMAND
          with "1.prems"(1) conn Cons Some
          have "fill r (delete_command r s1) = Inr s'"
            by (simp add: processNextReplicationCommand.simps [of s] s1_def)
          from opidInv_fill [OF this i1] show ?thesis .
        next
          case CHECK_RESULTS_COMMAND
          with "1.prems"(1) conn Cons Some
          have "s' = checkResults r (delete_command r s1)"
            by (simp add: processNextReplicationCommand.simps [of s] s1_def)
          with i1 show ?thesis by simp
        qed
      qed
    next
      case Nil
      define s1 where "s1 = scheduleSlaveSynchronizationCommands (s\<lparr>currentWorkItem := None\<rparr>)"
      have i1: "opidInv s1"
        using "1.prems"(2) by (simp add: s1_def)
      show ?thesis
      proof (cases "state s = BACKGROUND_SYNCHRONIZING")
        case True
        note bg = True
        show ?thesis
        proof (cases "replicatorStarted s")
          case True
          with "1.prems"(1) conn Nil bg show ?thesis
            by (simp add: processNextReplicationCommand.simps [of s])
        next
          case False
          show ?thesis
          proof (cases "0 < length (workQueue s1)")
            case True
            with "1.prems"(1) conn Nil bg False
            have "processNextReplicationCommand s1 = Inr s'"
              by (simp add: processNextReplicationCommand.simps [of s] s1_def)
            from "1.IH"(1) [OF nn Nil bg False s1_def True this i1]
            show ?thesis .
          next
            case nonempty: False
            with "1.prems"(1) conn Nil bg False
            have "doneBackgroundSynchronizing s1 = Inr s'"
              by (simp add: processNextReplicationCommand.simps [of s] s1_def)
            from opidInv_doneBackgroundSynchronizing [OF this] i1 show ?thesis by simp
          qed
        qed
      next
        case False
        note nbg = False
        show ?thesis
        proof (cases "state s = LOCKED_SYNCHRONIZING")
          case True
          with "1.prems"(1) conn Nil nbg
          have "doneLockedSynchronizing s1 = Inr s'"
            by (simp add: processNextReplicationCommand.simps [of s] s1_def Let_def split: if_splits)
          from opidInv_doneLockedSynchronizing [OF this] i1 show ?thesis by simp
        next
          case False
          with "1.prems" conn Nil nbg show ?thesis
            by (auto simp: processNextReplicationCommand.simps [of s] split: if_splits)
        qed
      qed
    qed
  qed
qed

lemma opidInv_finishWorkItem:
  "finishWorkItem r s = Inr s' \<Longrightarrow> opidInv s \<Longrightarrow> opidInv s'"
  by (auto simp: finishWorkItem_def bind_e_def split: sum.splits
      dest: opidInv_cleanupWorkItem opidInv_processNext)

lemma opidInv_continueWith:
  "continueWith (Inr (s, again)) = Inr s' \<Longrightarrow> opidInv s \<Longrightarrow> opidInv s'"
  by (auto simp: continueWith_def split: if_splits dest: opidInv_processNext)

lemma opidInv_sent [simp]:
  "opidInv (sentRemoveOneCommand e r ds s) = opidInv s"
  "opidInv (sentRemoveCommand e r s) = opidInv s"
  "opidInv (startStreamingDataFile_results e r s) = opidInv s"
  "opidInv (checkResults_sent e r s) = opidInv s"
  "opidInv (pingReply rp s) = opidInv s"
  "opidInv (readFailed b s) = opidInv s"
  "opidInv (readEnd s) = opidInv s"
  by (simp_all add: sentRemoveOneCommand_def sentRemoveCommand_def
      startStreamingDataFile_results_def checkResults_sent_def pingReply_def readFailed_def
      readEnd_def)

lemma opidInv_receivedReplyForRemoveOneCommand:
  assumes "receivedReplyForRemoveOneCommand rp r ds s = Inr s'" and "opidInv s"
  shows "opidInv s'"
proof (cases "ok rp")
  case True
  with assms(1) have c: "continueWith (pruneNextTimestamp r ds s) = Inr s'"
    by (simp add: receivedReplyForRemoveOneCommand_def)
  then obtain s2 again where p: "pruneNextTimestamp r ds s = Inr (s2, again)"
    by (cases "pruneNextTimestamp r ds s") (auto simp: continueWith_def)
  from opidInv_pruneNextTimestamp [OF p] assms(2) have "opidInv s2" by simp
  with c p show ?thesis by (auto dest: opidInv_continueWith)
next
  case False
  with assms show ?thesis
    by (auto simp: receivedReplyForRemoveOneCommand_def)
qed

lemma opidInv_receivedReplyForRemoveCommand:
  "receivedReplyForRemoveCommand rp r s = Inr s' \<Longrightarrow> opidInv s \<Longrightarrow> opidInv s'"
  by (auto simp: receivedReplyForRemoveCommand_def split: if_splits dest: opidInv_finishWorkItem)

lemma opidInv_written:
  "written r s = Inr s' \<Longrightarrow> opidInv s \<Longrightarrow> opidInv s'"
  by (auto simp: written_def split: option.splits dest!: opidInv_finishWorkItem)

lemma opidInv_fillByStreamingDataFile_get:
  "fillByStreamingDataFile_get e r s = Inr s' \<Longrightarrow> opidInv s \<Longrightarrow> opidInv s'"
  by (auto simp: fillByStreamingDataFile_get_def split: if_splits
      dest: opidInv_startStreamingDataFile)

lemma opidInv_fillByStreamingDataFile_reply:
  "fillByStreamingDataFile_reply rp r s = Inr s' \<Longrightarrow> opidInv s \<Longrightarrow> opidInv s'"
  by (auto simp: fillByStreamingDataFile_reply_def split: if_splits option.splits
      dest!: opidInv_startStreamingDataFile)

lemma opidInv_startStreamingDataFile_each:
  "startStreamingDataFile_each e rc r s = Inr s' \<Longrightarrow> opidInv s \<Longrightarrow> opidInv s'"
  by (auto simp: startStreamingDataFile_each_def Let_def opidInv_add
      split: if_splits option.splits each_record.splits
      dest: opidInv_finishWorkItem)

lemma opidInv_dataFileRecordSent:
  "dataFileRecordSent e r rc s = Inr s' \<Longrightarrow> opidInv s \<Longrightarrow> opidInv s'"
  by (auto simp: dataFileRecordSent_def Let_def split: if_splits)

lemma opidInv_dataFileRecordSent_results:
  "dataFileRecordSent_results e r rc s = Inr s' \<Longrightarrow> opidInv s \<Longrightarrow> opidInv s'"
  by (auto simp: dataFileRecordSent_results_def split: if_splits)

lemma opidInv_received_ok:
  "isResultsReply k \<Longrightarrow> ok rp \<Longrightarrow> opidInv s \<Longrightarrow>
   opidInv ((emit (Received k (Obj rp)) s)\<lparr>nextOpId := 0\<rparr>)"
  by (rule opidInv_ack [of s k rp]) (simp_all add: emit_def)

lemma opidInv_handleCheckResultAfter:
  assumes "opidInv s"
  shows "opidInv (handleCheckResultAfterSendingDataFileRecord rp r rc
           (emit (Received (K_handleCheckResultAfterSendingDataFileRecord r rc) (Obj rp)) s))"
proof (cases "ok rp")
  case True
  have "opidInv ((emit (Received (K_handleCheckResultAfterSendingDataFileRecord r rc) (Obj rp)) s)
                   \<lparr>nextOpId := 0\<rparr>)"
    by (rule opidInv_received_ok) (simp_all add: isResultsReply_def True assms)
  then have "opidInv ((emit (Received (K_handleCheckResultAfterSendingDataFileRecord r rc) (Obj rp)) s)
                   \<lparr>cleanupHandler := False, nextOpId := 0\<rparr>)"
    by (simp add: opidInv_def)
  with True show ?thesis
    by (simp add: handleCheckResultAfterSendingDataFileRecord_def Let_def)
next
  case False
  with assms show ?thesis
    by (simp add: handleCheckResultAfterSendingDataFileRecord_def Let_def)
qed

lemma opidInv_dataFileFullyStreamed:
  assumes "dataFileFullyStreamed rp r (emit (Received (K_dataFileFullyStreamed r) (Obj rp)) s) = Inr s'"
    and "opidInv s"
  shows "opidInv s'"
proof (cases "ok rp")
  case True
  have "opidInv ((emit (Received (K_dataFileFullyStreamed r) (Obj rp)) s)\<lparr>nextOpId := 0\<rparr>)"
    by (rule opidInv_received_ok) (simp_all add: isResultsReply_def True assms)
  with True assms(1) show ?thesis
    by (auto simp: dataFileFullyStreamed_def dest: opidInv_finishWorkItem)
next
  case False
  with assms show ?thesis
    by (auto simp: dataFileFullyStreamed_def)
qed

lemma opidInv_handleCheckResult:
  assumes "handleCheckResult rp r (emit (Received (K_handleCheckResult r) (Obj rp)) s) = Inr s'"
    and "opidInv s"
  shows "opidInv s'"
proof (cases "ok rp")
  case True
  have "opidInv ((emit (Received (K_handleCheckResult r) (Obj rp)) s)\<lparr>nextOpId := 0\<rparr>)"
    by (rule opidInv_received_ok) (simp_all add: isResultsReply_def True assms)
  with True assms(1) show ?thesis
    by (auto simp: handleCheckResult_def dest: opidInv_finishWorkItem)
next
  case False
  with assms show ?thesis
    by (auto simp: handleCheckResult_def)
qed

lemma opidInv_onAddingToOurDatabase:
  "onAddingToOurDatabase te gn d bufs done s = Inr s' \<Longrightarrow> opidInv s' = opidInv s"
  by (auto simp: onAddingToOurDatabase_def Let_def split: if_splits)

lemma opidInv_onRemoveFromOurDatabase:
  "onRemoveFromOurDatabase gn d s = Inr s' \<Longrightarrow> opidInv s' = opidInv s"
  by (auto simp: onRemoveFromOurDatabase_def split: if_splits)

lemma opidInv_onConnectionClose:
  "onConnectionClose s = Inr s' \<Longrightarrow> opidInv s' = opidInv s"
  by (auto simp: onConnectionClose_def Let_def split: if_splits dest: opidInv_cleanupWorkQueue)

lemma opidInv_locked:
  "locked s = Inr s' \<Longrightarrow> opidInv s \<Longrightarrow> opidInv s'"
  by (auto simp: locked_def split: if_splits dest: opidInv_processNext)

lemma opidInv_initialize:
  "initialize s = Inr s' \<Longrightarrow> opidInv s' = opidInv s"
  by (auto simp: initialize_def startReplication_def Let_def split: if_splits)

lemma opidInv_dispatch_read:
  assumes "isRead k" and "k \<noteq> K_continueReplication"
    and "dispatch k a (emit (Received k a) s) = Inr s'" and "opidInv s"
  shows "opidInv s'"
proof (cases a)
  case (Obj rp)
  from assms(1,2) show ?thesis
  proof (cases k)
    case (K_receivedReplyForRemoveOneCommand r ds)
    with assms Obj show ?thesis
      by (auto simp: dispatch_def isResultsReply_def
          dest!: opidInv_receivedReplyForRemoveOneCommand)
  next
    case (K_receivedReplyForRemoveCommand r)
    with assms Obj show ?thesis
      by (auto simp: dispatch_def isResultsReply_def dest!: opidInv_receivedReplyForRemoveCommand)
  next
    case (K_fillByStreamingDataFile_reply r)
    with assms Obj show ?thesis
      by (auto simp: dispatch_def isResultsReply_def dest!: opidInv_fillByStreamingDataFile_reply)
  next
    case (K_handleCheckResultAfterSendingDataFileRecord r rc)
    with assms Obj show ?thesis
      by (auto simp: dispatch_def opidInv_handleCheckResultAfter)
  next
    case (K_dataFileFullyStreamed r)
    with assms Obj show ?thesis
      by (auto simp: dispatch_def dest: opidInv_dataFileFullyStreamed)
  next
    case (K_handleCheckResult r)
    with assms Obj show ?thesis
      by (auto simp: dispatch_def dest: opidInv_handleCheckResult)
  next
    case K_pingReply
    with assms Obj show ?thesis
      by (auto simp: dispatch_def isResultsReply_def)
  qed (simp_all add: isRead_def)
next
  case NoArg
  with assms show ?thesis
    by (cases k) (auto simp: dispatch_def isRead_def)
next
  case (Err e)
  with assms show ?thesis
    by (cases k) (auto simp: dispatch_def isRead_def)
next
  case (Toc t)
  with assms show ?thesis
    by (cases k) (auto simp: dispatch_def isRead_def)
next
  case (EachResult e rc)
  with assms show ?thesis
    by (cases k) (auto simp: dispatch_def isRead_def)
qed

lemma opidInv_dispatch_other:
  assumes "\<not> isRead k" and "dispatch k a s = Inr s'" and "opidInv s"
  shows "opidInv s'"
proof (cases k)
  case K_processNextReplicationCommand
  with assms show ?thesis
    by (cases a) (auto simp: dispatch_def dest: opidInv_processNext)
next
  case (K_sentRemoveOneCommand r ds)
  with assms show ?thesis
    by (cases a) (auto simp: dispatch_def)
next
  case (K_sentRemoveCommand r)
  with assms show ?thesis
    by (cases a) (auto simp: dispatch_def)
next
  case (K_written r)
  with assms show ?thesis
    by (cases a) (auto simp: dispatch_def dest: opidInv_written)
next
  case (K_fillByStreamingDataFile_get r)
  with assms show ?thesis
    by (cases a) (auto simp: dispatch_def dest: opidInv_fillByStreamingDataFile_get)
next
  case (K_startStreamingDataFile_each r)
  with assms show ?thesis
    by (cases a) (auto simp: dispatch_def dest: opidInv_startStreamingDataFile_each)
next
  case (K_dataFileRecordSent r rc)
  with assms show ?thesis
    by (cases a) (auto simp: dispatch_def dest: opidInv_dataFileRecordSent)
next
  case (K_dataFileRecordSent_results r rc)
  with assms show ?thesis
    by (cases a) (auto simp: dispatch_def dest: opidInv_dataFileRecordSent_results)
next
  case (K_startStreamingDataFile_results r)
  with assms show ?thesis
    by (cases a) (auto simp: dispatch_def)
next
  case (K_checkResults_sent r)
  with assms show ?thesis
    by (cases a) (auto simp: dispatch_def)
next
  case K_locked
  with assms show ?thesis
    by (cases a) (auto simp: dispatch_def dest: opidInv_locked)
qed (use assms in \<open>simp_all add: isRead_def\<close>)

lemma opidInv_fire:
  assumes "k \<noteq> K_continueReplication" and "fire k a s = Inr s'" and "opidInv s"
  shows "opidInv s'"
proof (cases "isRead k")
  case True
  show ?thesis
  proof (cases "connected s")
    case c: True
    with True assms(2) have "dispatch k a (emit (Received k a) s) = Inr s'"
      by (simp add: fire_def)
    from opidInv_dispatch_read [OF True assms(1) this assms(3)] show ?thesis .
  next
    case False
    with True assms show ?thesis by (simp add: fire_def)
  qed
next
  case False
  with assms(2) have "dispatch k a s = Inr s'" by (simp add: fire_def)
  from opidInv_dispatch_other [OF False this assms(3)] show ?thesis .
qed

lemma opidInv_react:
  assumes "afterToc ev" and "react ev s = Inr s'" and "opidInv s"
  shows "opidInv s'"
proof (cases ev)
  case (Fire k a)
  with assms show ?thesis
    by (auto simp: react_def afterToc_def dest: opidInv_fire)
next
  case (Adding te gn d bufs dn)
  with assms show ?thesis
    by (auto simp: react_def dest: opidInv_onAddingToOurDatabase)
next
  case (Removed gn d)
  with assms show ?thesis
    by (auto simp: react_def dest: opidInv_onRemoveFromOurDatabase)
next
  case ConnectionClose
  with assms show ?thesis
    by (auto simp: react_def dest: opidInv_onConnectionClose)
qed (use assms in \<open>auto simp: react_def afterToc_def\<close>)

lemma cleanupWorkItem_keeps:
  "cleanupWorkItem r s = Inr s' \<Longrightarrow> nextOpId s' = nextOpId s \<and> state s' = state s"
  by (auto simp: cleanupWorkItem_def bind_e_def decReadOperations_def emit_def Let_def
      split: if_splits option.splits)

lemma cleanupItems_keeps:
  "cleanupItems rs s = Inr s' \<Longrightarrow> nextOpId s' = nextOpId s \<and> state s' = state s"
proof (induction rs arbitrary: s)
  case Nil
  then show ?case by simp
next
  case (Cons r rs)
  then show ?case
    by (auto simp: bind_e_def split: sum.splits dest!: cleanupWorkItem_keeps)
qed

lemma onConnectionClose_keeps:
  "onConnectionClose s = Inr s' \<Longrightarrow> nextOpId s' = nextOpId s \<and> state s' = state s"
  by (auto simp: onConnectionClose_def cleanupWorkQueue_def bind_e_def Let_def emit_def
      split: if_splits sum.splits option.splits
      dest!: cleanupWorkItem_keeps cleanupItems_keeps)

lemma startInv_react:
  assumes "beforeToc ev" and "react ev s = Inr s'" and "startInv s"
  shows "startInv s'"
proof (cases ev)
  case Initialize
  with assms show ?thesis
    by (auto simp: react_def startInv_def initialize_def startReplication_def Let_def
        readJsonObject_def writeJSON_def emit_def opidInv_def
        opidsSinceAck_def segmentsDistinct_append opidStep_def acknowledges_def addOpid_def
        split: if_splits)
next
  case (Fire k a)
  with assms show ?thesis by (simp add: beforeToc_def)
next
  case (ReadFailed b)
  with assms show ?thesis
    by (auto simp: react_def startInv_def readFailed_def disconnectWithError_def emit_def
        opidInv_def opidsSinceAck_def segmentsDistinct_append opidStep_def acknowledges_def
        addOpid_def split: if_splits)
next
  case ReadEnd
  with assms show ?thesis
    by (auto simp: react_def startInv_def readEnd_def disconnect_def emit_def
        opidInv_def opidsSinceAck_def segmentsDistinct_append opidStep_def acknowledges_def
        addOpid_def split: if_splits)
next
  case (Adding te gn d bufs dn)
  with assms show ?thesis
    by (auto simp: react_def startInv_def onAddingToOurDatabase_def emit_def
        opidInv_def opidsSinceAck_def segmentsDistinct_append opidStep_def acknowledges_def
        addOpid_def split: if_splits)
next
  case (Removed gn d)
  with assms show ?thesis
    by (auto simp: react_def startInv_def onRemoveFromOurDatabase_def split: if_splits)
next
  case ConnectionClose
  with assms have c: "onConnectionClose s = Inr s'" by (simp add: react_def)
  from onConnectionClose_keeps [OF c] opidInv_onConnectionClose [OF c] assms(3)
  show ?thesis by (simp add: startInv_def)
next
  case RequestClose
  with assms show ?thesis
    by (auto simp: react_def startInv_def disconnect_def emit_def
        opidInv_def opidsSinceAck_def segmentsDistinct_append opidStep_def acknowledges_def
        addOpid_def split: if_splits)
qed

lemma starting_startInv: "starting s \<Longrightarrow> startInv s"
proof (induction rule: starting.induct)
  case (new master threshold hs fs gs h)
  show ?case
    by (simp add: startInv_def opidInv_def newSession_def opidsSinceAck_def)
next
  case (early s ev s')
  then show ?case by (auto dest: startInv_react)
next
  case (world0 s gs h d)
  then show ?case by (simp add: startInv_def opidInv_def)
qed

lemma trace_loadEntries:
  "loadEntries es acc s = (es', s') \<Longrightarrow> trace s' = trace s \<and> nextOpId s' = nextOpId s"
  by (induction es acc s arbitrary: es' s' rule: loadEntries.induct) auto

lemma trace_loadToc: "trace (loadToc t s) = trace s \<and> nextOpId (loadToc t s) = nextOpId s"
proof (induction t s rule: loadToc.induct)
  case (1 s)
  show ?case by simp
next
  case (2 gn es rest s)
  obtain es' s1 where l: "loadEntries es [] s = (es', s1)"
    by (cases "loadEntries es [] s")
  from trace_loadEntries [OF l] "2.IH" [OF l [symmetric]] l
  show ?case by simp
qed

lemma opidInv_loadToc [simp]: "opidInv (loadToc t s) = opidInv s"
  by (rule opidInv_same) (simp_all add: trace_loadToc)

lemma opidInv_continueReplication:
  assumes "fire K_continueReplication (Toc t) s = Inr s'" and "startInv s"
  shows "opidInv s'"
proof (cases "connected s")
  case False
  with assms show ?thesis
    by (simp add: fire_def isRead_def startInv_def)
next
  case True
  define s0 where "s0 = emit (Received K_continueReplication (Toc t)) s"
  define s2 where "s2 = (loadToc t (s0\<lparr>toc := []\<rparr>))\<lparr>workQueue := [], currentWorkItem := None,
     resultCheckCounter := 0, cleanupHandler := False, nextOpId := 0, replicatorStarted := False\<rparr>"
  have i0: "opidInv s0" "nextOpId s0 = 0"
    using assms(2) by (simp_all add: s0_def startInv_def) (simp add: emit_def)
  have "trace s2 = trace s0" "nextOpId s2 = nextOpId s0"
    using i0(2) by (simp_all add: s2_def trace_loadToc)
  from opidInv_same [OF this] i0 have i2: "opidInv s2" by simp
  from True assms(1)
  have "processNextReplicationCommand (scheduleSlaveSynchronizationCommands s2) = Inr s'"
    by (simp add: fire_def isRead_def dispatch_def continueReplication_def Let_def s2_def s0_def
        split: if_splits)
  from opidInv_processNext [OF this] i2 show ?thesis by simp
qed

lemma reachable_opidInv: "reachable s \<Longrightarrow> opidInv s"
proof (induction rule: reachable.induct)
  case (toc s t s')
  from opidInv_continueReplication [OF toc(2) starting_startInv [OF toc(1)]]
  show ?case .
next
  case (step s ev s')
  from opidInv_react [OF step(2) step(3) step(4)] show ?case .
next
  case (world s gs h d)
  then show ?case by (simp add: opidInv_def)
qed

lemma segmentsDistinct_prefixes:
  "segmentsDistinct acc tr = (\<forall>n. distinct (foldl opidStep acc (take n tr)))"
proof (induction tr arbitrary: acc)
  case Nil
  show ?case by simp
next
  case (Cons a tr)
  have "(\<forall>n. distinct (foldl opidStep acc (take n (a # tr))))
      = (distinct acc \<and> (\<forall>n. distinct (foldl opidStep (opidStep acc a) (take n tr))))"
  proof
    assume l: "\<forall>n. distinct (foldl opidStep acc (take n (a # tr)))"
    from l [rule_format, of 0] have "distinct acc" by simp
    moreover have "\<forall>n. distinct (foldl opidStep (opidStep acc a) (take n tr))"
    proof
      fix n from l [rule_format, of "Suc n"]
      show "distinct (foldl opidStep (opidStep acc a) (take n tr))" by simp
    qed
    ultimately show "distinct acc \<and> (\<forall>n. distinct (foldl opidStep (opidStep acc a) (take n tr)))"
      by simp
  next
    assume r: "distinct acc \<and> (\<forall>n. distinct (foldl opidStep (opidStep acc a) (take n tr)))"
    show "\<forall>n. distinct (foldl opidStep acc (take n (a # tr)))"
    proof
      fix n show "distinct (foldl opidStep acc (take n (a # tr)))"
        using r by (cases n) simp_all
    qed
  qed
  with Cons.IH [of "opidStep acc a"] show ?case by simp
qed

text \<open>
  C4. In every session that can occur, the opids of the \<open>add\<close> commands written since the
  last acknowledged \<open>results\<close> command are \<open>0, 1, ..., nextOpId - 1\<close>, in this order: each
  \<open>add\<close> takes \<open>nextOpId\<close>, which then grows by one, and a reply with status ok to
  \<open>results\<close> resets it to 0. Hence at every point of the trace the opids written since the
  last acknowledgement are pairwise distinct.
\<close>

theorem opids_distinct_between_results:
  "reachable s \<Longrightarrow>
   opidsSinceAck (trace s) = [0 ..< nextOpId s]
   \<and> (\<forall>n. distinct (opidsSinceAck (take n (trace s))))"
proof -
  assume "reachable s"
  then have "opidInv s" by (rule reachable_opidInv)
  then show ?thesis
    by (simp add: opidInv_def segmentsDistinct_prefixes opidsSinceAck_def)
qed

lemma reacts_append:
  "reacts (xs @ ys) s = bind_e (reacts xs s) (reacts ys)"
  by (induction xs arbitrary: s) (auto simp: bind_e_def split: sum.splits)

lemma starting_reacts:
  "starting s \<Longrightarrow> list_all beforeToc evs \<Longrightarrow> reacts evs s = Inr s' \<Longrightarrow> starting s'"
proof (induction evs arbitrary: s)
  case Nil
  then show ?case by simp
next
  case (Cons ev evs)
  from Cons.prems(3) obtain s1 where r: "react ev s = Inr s1" and rest: "reacts evs s1 = Inr s'"
    by (auto simp: bind_e_def split: sum.splits)
  from Cons.prems(1,2) r have "starting s1"
    by (auto intro: starting.early)
  with Cons.IH [of s1] Cons.prems(2) rest show ?case by simp
qed

lemma reachable_reacts:
  "reachable s \<Longrightarrow> list_all afterToc evs \<Longrightarrow> reacts evs s = Inr s' \<Longrightarrow> reachable s'"
proof (induction evs arbitrary: s)
  case Nil
  then show ?case by simp
next
  case (Cons ev evs)
  from Cons.prems(3) obtain s1 where r: "react ev s = Inr s1" and rest: "reacts evs s1 = Inr s'"
    by (auto simp: bind_e_def split: sum.splits)
  from Cons.prems(1,2) r have "reachable s1"
    by (auto intro: reachable.step)
  with Cons.IH [of s1] Cons.prems(2) rest show ?case by simp
qed

lemma reachable_run:
  assumes "starting s" and "list_all beforeToc pre" and "list_all afterToc post"
    and "reacts (pre @ Fire K_continueReplication (Toc t) # post) s = Inr s'"
  shows "reachable s'"
proof -
  from assms(4) obtain s1 where a: "reacts pre s = Inr s1"
    and b: "reacts (Fire K_continueReplication (Toc t) # post) s1 = Inr s'"
    by (auto simp: reacts_append bind_e_def split: sum.splits)
  from b obtain s2 where c: "fire K_continueReplication (Toc t) s1 = Inr s2"
    and d: "reacts post s2 = Inr s'"
    by (auto simp: bind_e_def react_def split: sum.splits)
  from starting_reacts [OF assms(1,2) a] have "starting s1" .
  from reachable.toc [OF this c] have "reachable s2" .
  from reachable_reacts [OF this assms(3) d] show ?thesis .
qed

lemma firstAddSent_run:
  "reacts ([Initialize] @ Fire K_continueReplication (Toc []) #
           [Fire K_locked NoArg,
            Fire K_pingReply (Obj (Reply ''ok'')),
            Adding 2 ''g'' 5 [[104, 105]] 7,
            Fire K_processNextReplicationCommand NoArg]) emptyMaster = Inr firstAddSent"
  by (simp add: firstAddSent_def runFrom_def emptyMaster_def newSession_def
      react_def initialize_def startReplication_def connected_def
      fire_def isRead_def dispatch_def continueReplication_def
      scheduleSlaveSynchronizationCommands_def processNextReplicationCommand.simps
      doneBackgroundSynchronizing_def doneLockedSynchronizing_def locked_def pingReply_def
      ok_def status_def
      onAddingToOurDatabase_def incReadOperations_def addToWorkQueue_unfold emptyItem_def
      startReplicator_def delete_command_def fill_def key_of_def
      fillBySendingBuffers_def writeJSON_def writeBuffer_def readJsonObject_def emit_def
      calculateRecordSize_def Let_def bind_e_def)

lemma firstAddSent_facts:
  "nextOpId firstAddSent = 1
   \<and> trace firstAddSent =
       [WriteJSON (StatusMsg ''ok'') None, WriteJSON GetTocCmd None,
        ReadJsonObject K_continueReplication,
        Received K_continueReplication (Toc []),
        DatabaseLock K_locked,
        WriteJSON PingCmd None, ReadJsonObject K_pingReply,
        Received K_pingReply (Obj (Reply ''ok'')),
        DatabaseOn, DatabaseOn, DatabaseUnlock, InputResume,
        NextTick K_processNextReplicationCommand,
        WriteJSON (AddCmd (Some ''g'') (Some 432000) 2 0 None) None,
        Write [104, 105] (Some (K_written 0))]"
  by (simp add: firstAddSent_def runFrom_def emptyMaster_def newSession_def
      react_def initialize_def startReplication_def connected_def
      fire_def isRead_def dispatch_def continueReplication_def
      scheduleSlaveSynchronizationCommands_def processNextReplicationCommand.simps
      doneBackgroundSynchronizing_def doneLockedSynchronizing_def locked_def pingReply_def
      ok_def status_def
      onAddingToOurDatabase_def incReadOperations_def addToWorkQueue_unfold emptyItem_def
      startReplicator_def delete_command_def fill_def key_of_def
      fillBySendingBuffers_def writeJSON_def writeBuffer_def readJsonObject_def emit_def
      calculateRecordSize_def Let_def bind_e_def)

theorem opids_distinct_between_results_witness:
  "reachable firstAddSent
   \<and> nextOpId firstAddSent = 1
   \<and> opidsSinceAck (trace firstAddSent) = [0]
   \<and> (\<forall>n. distinct (opidsSinceAck (take n (trace firstAddSent))))"
proof -
  have r: "reachable firstAddSent"
    by (rule reachable_run [OF starting.new [of True 2 8 4 "[]" heap3] _ _
          firstAddSent_run [unfolded emptyMaster_def]])
       (simp_all add: beforeToc_def afterToc_def)
  show ?thesis
    using r opids_distinct_between_results [OF r] firstAddSent_facts by simp
qed

subsection \<open>Removal of a whole group\<close>

text \<open>
  C5. In state \<open>READY\<close> a \<open>remove\<close> event for a whole group is claimed to make the session
  send a \<open>remove\<close> command that names the group and delete the group from the mirror.
  \<open>onRemoveFromOurDatabase\<close> names the group in the field \<open>group\<close> of the item, and
  \<open>pruneOne\<close> reads \<open>groupName\<close>, which is undefined: for the event on group \<open>g\<close> the
  assertion that the mirror has the group fails; and when the slave has a group named
  \<open>undefined\<close>, the \<open>remove\<close> command is written without a group and that group, not
  \<open>g\<close>, is deleted from the mirror.
\<close>

theorem remove_group_not_pruned:
  "reacts [Removed ''g'' None, Fire K_processNextReplicationCommand NoArg] readySession
     = Inl AssertionError
   \<and> (case reacts [Removed ''g'' None, Fire K_processNextReplicationCommand NoArg] readySessionU of
        Inl e \<Rightarrow> False
      | Inr s \<Rightarrow>
          toc s = [(''g'', [(1, 0), (2, 1)])]
          \<and> trace s = [NextTick K_processNextReplicationCommand,
                        WriteJSON (RemoveCmd None) (Some (K_sentRemoveCommand 0))])"
  by (simp add: react_def onRemoveFromOurDatabase_def readySession_def readySessionU_def
      newSession_def connected_def truthy_num_def
      addToWorkQueue_unfold emptyItem_def startReplicator_def emit_def
      Let_def bind_e_def fire_def isRead_def dispatch_def
      processNextReplicationCommand.simps delete_command_def pruneOne_def key_of_def
      writeJSON_def AList.delete_eq)

end
